theory Spec2Isabelle
  imports Main "HOL-Library.AList"
begin

section \<open>Outcomes of a call\<close>

text \<open>
  A Go call either returns, panics, or never returns.  The injector is used from one
  goroutine here, so locking a \<open>sync.Mutex\<close> that the goroutine already holds blocks
  forever: that is the outcome \<open>Deadlock\<close>.  \<open>OutOfFuel\<close> is not a behaviour of the
  program: the recursive functions of the model (\<open>verifyStack\<close>, \<open>get\<close>) carry a
  recursion budget, and \<open>OutOfFuel\<close> says the budget was too small.
\<close>

datatype halt = Panic string | Deadlock | OutOfFuel

datatype 'a outcome = Returns 'a | Stops halt

fun bindO :: "'a outcome \<Rightarrow> ('a \<Rightarrow> 'b outcome) \<Rightarrow> 'b outcome" where
  "bindO (Returns x) f = f x"
| "bindO (Stops h) f = Stops h"

section \<open>internal/search: the three caches\<close>

type_synonym ReorderOption = bool

abbreviation (input) NoReorder :: ReorderOption where "NoReorder \<equiv> False"
abbreviation (input) Reorder :: ReorderOption where "Reorder \<equiv> True"

subsection \<open>map.go\<close>

text \<open>
  \<open>Map\<close> wraps a Go map.  The model keeps the map as an association list with one pair
  per key: \<open>entries[key] = value\<close> overwrites the pair of a key that is present and adds a
  pair otherwise.  Go leaves the iteration order of a map unspecified; \<open>Map_All\<close>
  enumerates the list as it stands, and the theorems that iterate a \<open>Map\<close> are stated
  for every association list, hence for every order.  \<open>Map\<close> has no mutex.
\<close>

datatype ('k, 'v) Map = MkMap (Map_entries: "('k \<times> 'v) list")

definition NewMap :: "('k, 'v) Map" where
  "NewMap = MkMap []"

definition Map_Add :: "'k \<Rightarrow> 'v \<Rightarrow> ('k, 'v) Map \<Rightarrow> ('k, 'v) Map" where
  "Map_Add k v m = MkMap (AList.update k v (Map_entries m))"

definition Map_All :: "('k, 'v) Map \<Rightarrow> ('k \<times> 'v) list" where
  "Map_All m = Map_entries m"

definition Map_Find :: "'k \<Rightarrow> ReorderOption \<Rightarrow> ('k, 'v) Map \<Rightarrow> 'v option" where
  "Map_Find k reorder m = map_of (Map_entries m) k"

subsection \<open>BubbleList (src/unnamed/part_002)\<close>

text \<open>
  \<open>accesses\<close> is a Go \<open>int\<close>.  It is modelled as an unbounded integer: the only
  arithmetic on it is the increment in \<open>reorder\<close>, whose result is never stored
  (see \<open>BubbleList_reorder\<close>), so wrap-around cannot be observed.
\<close>

datatype ('k, 'v) bubbleNode =
  bubbleNode (node_key: 'k) (node_value: 'v) (accesses: int)

datatype ('k, 'v) BubbleList =
  MkBubbleList (BL_mutex: bool) (BL_entries: "('k, 'v) bubbleNode list")

definition new_BubbleList :: "('k, 'v) BubbleList" where
  "new_BubbleList = MkBubbleList False []"

definition BubbleList_Add :: "'k \<Rightarrow> 'v \<Rightarrow> ('k, 'v) BubbleList \<Rightarrow> ('k, 'v) BubbleList" where
  "BubbleList_Add k v this =
     MkBubbleList (BL_mutex this) (BL_entries this @ [bubbleNode k v 0])"

definition BubbleList_All :: "('k, 'v) BubbleList \<Rightarrow> ('k \<times> 'v) list" where
  "BubbleList_All this = map (\<lambda>node. (node_key node, node_value node)) (BL_entries this)"

text \<open>
  \<open>reorder(index, entry)\<close> receives a pointer to the loop variable of \<open>Find\<close>, which is
  a copy of the slice element.  \<open>entry.accesses++\<close> therefore changes the copy; the
  comparison and the swap read and write the slice itself.  The function returns the
  updated copy and the slice.
\<close>

definition BubbleList_reorder ::
  "nat \<Rightarrow> ('k, 'v) bubbleNode \<Rightarrow> ('k, 'v) bubbleNode list
     \<Rightarrow> ('k, 'v) bubbleNode \<times> ('k, 'v) bubbleNode list" where
  "BubbleList_reorder index entry es =
     (let entry' = bubbleNode (node_key entry) (node_value entry) (accesses entry + 1)
      in (entry',
          if index > 0 \<and> accesses (es ! index) > accesses (es ! (index - 1))
          then es[index - 1 := es ! index, index := es ! (index - 1)]
          else es))"

text \<open>
  The loop \<open>for i, entry := range this.entries\<close>: \<open>rest\<close> is the part of the slice
  still to visit, \<open>i\<close> the index of its first element, \<open>es\<close> the whole slice.  The
  loop ends at the first entry whose key matches.
\<close>

fun BubbleList_scan ::
  "'k \<Rightarrow> ReorderOption \<Rightarrow> nat \<Rightarrow> ('k, 'v) bubbleNode list \<Rightarrow> ('k, 'v) bubbleNode list
     \<Rightarrow> 'v option \<times> ('k, 'v) bubbleNode list" where
  "BubbleList_scan k reorder i [] es = (None, es)"
| "BubbleList_scan k reorder i (entry # rest) es =
     (if node_key entry = k
      then (Some (node_value entry),
            if reorder then snd (BubbleList_reorder i entry es) else es)
      else BubbleList_scan k reorder (Suc i) rest es)"

definition BubbleList_Find ::
  "'k \<Rightarrow> ReorderOption \<Rightarrow> ('k, 'v) BubbleList \<Rightarrow> ('v option \<times> ('k, 'v) BubbleList) outcome" where
  "BubbleList_Find k reorder this =
     (if BL_mutex this then Stops Deadlock
      else (let (found, es) = BubbleList_scan k reorder 0 (BL_entries this) (BL_entries this)
            in Returns (found, MkBubbleList False es)))"

subsection \<open>priority_list.go\<close>

text \<open>
  The singly linked list is modelled by the list of its nodes from \<open>head\<close> on; the
  \<open>next\<close> pointers are the list's order.  Nodes are reachable only through the list.
\<close>

datatype ('k, 'v) priorityListNode = priorityListNode (pnode_key: 'k) (pnode_value: 'v)

datatype ('k, 'v) PriorityList =
  MkPriorityList (PL_mutex: bool) (PL_head: "('k, 'v) priorityListNode list")

definition new_PriorityList :: "('k, 'v) PriorityList" where
  "new_PriorityList = MkPriorityList False []"

definition PriorityList_Add ::
  "'k \<Rightarrow> 'v \<Rightarrow> ('k, 'v) PriorityList \<Rightarrow> ('k, 'v) PriorityList" where
  "PriorityList_Add k v this =
     MkPriorityList (PL_mutex this) (priorityListNode k v # PL_head this)"

text \<open>
  \<open>reorder(previous, current)\<close>: \<open>passed\<close> are the nodes from \<open>head\<close> up to and
  including \<open>previous\<close> (none when \<open>previous\<close> is nil), \<open>remaining\<close> the nodes behind
  \<open>current\<close>.
\<close>

definition PriorityList_reorder ::
  "('k, 'v) priorityListNode list \<Rightarrow> ('k, 'v) priorityListNode
     \<Rightarrow> ('k, 'v) priorityListNode list \<Rightarrow> ('k, 'v) priorityListNode list" where
  "PriorityList_reorder passed current remaining =
     (if passed \<noteq> [] then current # passed @ remaining else passed @ current # remaining)"

fun PriorityList_scan ::
  "'k \<Rightarrow> ReorderOption \<Rightarrow> ('k, 'v) priorityListNode list \<Rightarrow> ('k, 'v) priorityListNode list
     \<Rightarrow> 'v option \<times> ('k, 'v) priorityListNode list" where
  "PriorityList_scan k reorder passed [] = (None, passed)"
| "PriorityList_scan k reorder passed (current # remaining) =
     (if pnode_key current = k
      then (Some (pnode_value current),
            if reorder then PriorityList_reorder passed current remaining
            else passed @ current # remaining)
      else PriorityList_scan k reorder (passed @ [current]) remaining)"

definition PriorityList_Find ::
  "'k \<Rightarrow> ReorderOption \<Rightarrow> ('k, 'v) PriorityList
     \<Rightarrow> ('v option \<times> ('k, 'v) PriorityList) outcome" where
  "PriorityList_Find k reorder this =
     (if PL_mutex this then Stops Deadlock
      else (let (found, nodes) = PriorityList_scan k reorder [] (PL_head this)
            in Returns (found, MkPriorityList False nodes)))"

subsection \<open>cache.go: the interface and its three implementations\<close>

datatype ('k, 'v) Cache =
    MapCache "('k, 'v) Map"
  | BubbleCache "('k, 'v) BubbleList"
  | PriorityCache "('k, 'v) PriorityList"

fun Cache_Add :: "'k \<Rightarrow> 'v \<Rightarrow> ('k, 'v) Cache \<Rightarrow> ('k, 'v) Cache" where
  "Cache_Add k v (MapCache m) = MapCache (Map_Add k v m)"
| "Cache_Add k v (BubbleCache b) = BubbleCache (BubbleList_Add k v b)"
| "Cache_Add k v (PriorityCache p) = PriorityCache (PriorityList_Add k v p)"

fun Cache_Find ::
  "'k \<Rightarrow> ReorderOption \<Rightarrow> ('k, 'v) Cache \<Rightarrow> ('v option \<times> ('k, 'v) Cache) outcome" where
  "Cache_Find k reorder (MapCache m) = Returns (Map_Find k reorder m, MapCache m)"
| "Cache_Find k reorder (BubbleCache b) =
     bindO (BubbleList_Find k reorder b) (\<lambda>(found, b'). Returns (found, BubbleCache b'))"
| "Cache_Find k reorder (PriorityCache p) =
     bindO (PriorityList_Find k reorder p) (\<lambda>(found, p'). Returns (found, PriorityCache p'))"

text \<open>
  \<open>All()\<close> is consumed by a \<open>for ... range\<close> loop.  \<open>Cache_All_enter\<close> is what happens
  before the first iteration and gives the pairs the loop will visit;
  \<open>Cache_All_exit\<close> is what happens when the loop is left (normally or by
  \<open>return\<close>).  Only \<open>PriorityList.All\<close> takes the mutex, and it holds it while the
  loop body runs (\<open>defer this.Unlock()\<close>, \<open>this.Lock()\<close>, then the \<open>yield\<close> calls).
\<close>

fun Cache_All_enter :: "('k, 'v) Cache \<Rightarrow> (('k \<times> 'v) list \<times> ('k, 'v) Cache) outcome" where
  "Cache_All_enter (MapCache m) = Returns (Map_All m, MapCache m)"
| "Cache_All_enter (BubbleCache b) = Returns (BubbleList_All b, BubbleCache b)"
| "Cache_All_enter (PriorityCache p) =
     (if PL_mutex p then Stops Deadlock
      else Returns (map (\<lambda>node. (pnode_key node, pnode_value node)) (PL_head p),
                    PriorityCache (MkPriorityList True (PL_head p))))"

fun Cache_All_exit :: "('k, 'v) Cache \<Rightarrow> ('k, 'v) Cache" where
  "Cache_All_exit (MapCache m) = MapCache m"
| "Cache_All_exit (BubbleCache b) = BubbleCache b"
| "Cache_All_exit (PriorityCache p) = PriorityCache (MkPriorityList False (PL_head p))"

text \<open>\<open>Prepare()\<close> is empty in all three implementations.\<close>

definition Cache_Prepare :: "('k, 'v) Cache \<Rightarrow> ('k, 'v) Cache" where
  "Cache_Prepare c = c"

subsection \<open>Sequences of Add and Find calls\<close>

text \<open>
  \<open>add_all\<close> performs the \<open>Add\<close> calls of a list in order; \<open>find_all\<close> performs the
  \<open>Find\<close> calls of a list in order, each with its reorder flag, and collects what they
  return (\<open>None\<close> for not found).
\<close>

fun add_all :: "('k \<times> 'v) list \<Rightarrow> ('k, 'v) Cache \<Rightarrow> ('k, 'v) Cache" where
  "add_all [] c = c"
| "add_all ((k, v) # kvs) c = add_all kvs (Cache_Add k v c)"

fun find_all :: "('k \<times> ReorderOption) list \<Rightarrow> ('k, 'v) Cache \<Rightarrow> 'v option list outcome" where
  "find_all [] c = Returns []"
| "find_all ((k, reorder) # qs) c =
     bindO (Cache_Find k reorder c)
       (\<lambda>(found, c'). bindO (find_all qs c') (\<lambda>rs. Returns (found # rs)))"

subsection \<open>What a cache holds\<close>

text \<open>
  \<open>Cache_pairs\<close> lists the pairs of a cache in the order \<open>All()\<close> yields them, and
  \<open>Cache_lookup\<close> is the first value stored for a key.  A cache is idle when no call
  holds its mutex and every stored access counter of a \<open>BubbleList\<close> is zero, as
  \<open>Add\<close> stores it.
\<close>

fun Cache_pairs :: "('k, 'v) Cache \<Rightarrow> ('k \<times> 'v) list" where
  "Cache_pairs (MapCache m) = Map_All m"
| "Cache_pairs (BubbleCache b) = BubbleList_All b"
| "Cache_pairs (PriorityCache p) =
     map (\<lambda>node. (pnode_key node, pnode_value node)) (PL_head p)"

definition Cache_lookup :: "('k, 'v) Cache \<Rightarrow> 'k \<Rightarrow> 'v option" where
  "Cache_lookup c k = map_of (Cache_pairs c) k"

fun Cache_idle :: "('k, 'v) Cache \<Rightarrow> bool" where
  "Cache_idle (MapCache m) = True"
| "Cache_idle (BubbleCache b) =
     (\<not> BL_mutex b \<and> list_all (\<lambda>node. accesses node = 0) (BL_entries b))"
| "Cache_idle (PriorityCache p) = (\<not> PL_mutex p)"

section \<open>reflect: what the injector reads of a type\<close>

text \<open>
  A \<open>reflect.Type\<close> is modelled by the shape the injector inspects: its kind, its name,
  and for a function type its parameter types, its result types and whether it is
  variadic.  Struct and interface types carry their package and their name.  A
  \<open>reflect.Type\<close> value may be nil; where the source can meet a nil type it is an
  \<open>rtype option\<close>.
\<close>

datatype Kind = Struct | Interface | Pointer | Func | OtherKind

datatype rtype =
    StructT string string
  | InterfaceT string string
  | BasicT string
  | PointerT rtype
  | FuncT "rtype list" "rtype list" bool

fun Kind_of :: "rtype \<Rightarrow> Kind" where
  "Kind_of (StructT p n) = Struct"
| "Kind_of (InterfaceT p n) = Interface"
| "Kind_of (BasicT n) = OtherKind"
| "Kind_of (PointerT t) = Pointer"
| "Kind_of (FuncT ins outs v) = Func"

text \<open>\<open>Name()\<close> is empty for a type without a name of its own (pointer, function).\<close>

fun Name :: "rtype \<Rightarrow> string" where
  "Name (StructT p n) = n"
| "Name (InterfaceT p n) = n"
| "Name (BasicT n) = n"
| "Name (PointerT t) = ''''"
| "Name (FuncT ins outs v) = ''''"

text \<open>
  \<open>String()\<close>.  The injector calls it only on a key that passed the key check of
  \<open>register\<close> (a struct, an interface or a pointer to one); the rendering of a function
  type is abridged.
\<close>

fun String :: "rtype \<Rightarrow> string" where
  "String (StructT p n) = p @ ''.'' @ n"
| "String (InterfaceT p n) = p @ ''.'' @ n"
| "String (BasicT n) = n"
| "String (PointerT t) = ''*'' @ String t"
| "String (FuncT ins outs v) = ''func''"

text \<open>
  \<open>NumIn\<close>, \<open>In\<close>, \<open>NumOut\<close>, \<open>Out\<close> and \<open>IsVariadic\<close> panic on a type that is not
  a function type.  The source calls \<open>NumOut\<close>, \<open>Out\<close> and \<open>IsVariadic\<close> only behind
  a kind check (except in \<open>CallN\<close>, modelled there); the total functions below give the
  values for a function type.
\<close>

fun ins :: "rtype \<Rightarrow> rtype list" where
  "ins (FuncT is os v) = is"
| "ins t = []"

fun outs :: "rtype \<Rightarrow> rtype list" where
  "outs (FuncT is os v) = os"
| "outs t = []"

fun IsVariadic :: "rtype \<Rightarrow> bool" where
  "IsVariadic (FuncT is os v) = v"
| "IsVariadic t = False"

definition NumOut :: "rtype \<Rightarrow> nat" where
  "NumOut t = length (outs t)"

text \<open>
  The loop \<open>for i := 0; i < t.NumIn(); i++ { ... t.In(i) }\<close> of \<open>get\<close>, \<open>callN\<close> and
  \<open>verifyStack\<close>, on a type that may be nil or not a function type.
\<close>

definition parametersInfo :: "rtype option \<Rightarrow> rtype list outcome" where
  "parametersInfo t =
     (case t of
        None \<Rightarrow> Stops (Panic ''invalid memory address or nil pointer dereference'')
      | Some ft \<Rightarrow>
          if Kind_of ft = Func then Returns (ins ft)
          else Stops (Panic ''reflect: NumIn of non-func type''))"

text \<open>
  \<open>AssignableTo\<close> depends on the method sets of the program's types, which the model
  of a type does not carry.  \<open>impls\<close> lists the pairs \<open>(T, I)\<close> of the program in which
  type \<open>T\<close> implements interface \<open>I\<close>; identical types are assignable.
\<close>

definition AssignableTo :: "(rtype \<times> rtype) list \<Rightarrow> rtype \<Rightarrow> rtype \<Rightarrow> bool" where
  "AssignableTo impls v t = (v = t \<or> (v, t) \<in> set impls)"

section \<open>errors.go\<close>

text \<open>
  \<open>Errorf e text\<close> is \<open>fmt.Errorf("%w" + text, e)\<close>, \<open>Errorf2 e text e'\<close> is
  \<open>fmt.Errorf("%w" + text + "%w", e, e')\<close>, \<open>Join\<close> is the value of \<open>errors.Join\<close>,
  and \<open>ConstructorError\<close> is an error that a registered constructor returned.
\<close>

datatype error =
    InjectorError
  | Errorf error string
  | Errorf2 error string error
  | Join "error list"
  | ConstructorError string

definition ErrorAlreadyRegistered :: error where
  "ErrorAlreadyRegistered = Errorf InjectorError '', already registered''"

definition ErrorBadState :: error where
  "ErrorBadState = Errorf InjectorError '', bad injector state''"

definition ErrorDependencyLoop :: error where
  "ErrorDependencyLoop = Errorf InjectorError '', dependency loop detected''"

definition ErrorNoReturns :: error where
  "ErrorNoReturns = Errorf InjectorError '', no return values, must be exactly 1 return value''"

definition ErrorNotAFunction :: error where
  "ErrorNotAFunction = Errorf InjectorError '', value is not a function''"

definition ErrorNotAssignable :: error where
  "ErrorNotAssignable = Errorf InjectorError '', value is not assignable''"

definition ErrorNotRegistered :: error where
  "ErrorNotRegistered = Errorf InjectorError '', not registered''"

definition ErrorNotStructOrInterface :: error where
  "ErrorNotStructOrInterface = Errorf InjectorError '', key type is not a struct or interface''"

definition ErrorTooManyReturns :: error where
  "ErrorTooManyReturns =
     Errorf InjectorError '', too many return values, must be exactly 1 return value''"

definition ErrorVariadicArguments :: error where
  "ErrorVariadicArguments = Errorf InjectorError '', function has a variadic signature''"

definition ErrorWrongNumberOfReturns :: error where
  "ErrorWrongNumberOfReturns = Errorf InjectorError '', wrong number of return values''"

text \<open>\<open>errors.Is(e, target)\<close>: \<open>e\<close> is \<open>target\<close> or wraps it.\<close>

fun errors_Is :: "error \<Rightarrow> error \<Rightarrow> bool" where
  "errors_Is InjectorError t = (t = InjectorError)"
| "errors_Is (Errorf e s) t = (t = Errorf e s \<or> errors_Is e t)"
| "errors_Is (Errorf2 e s e') t = (t = Errorf2 e s e' \<or> errors_Is e t \<or> errors_Is e' t)"
| "errors_Is (Join es) t = (t = Join es \<or> list_ex (\<lambda>e. errors_Is e t) es)"
| "errors_Is (ConstructorError m) t = (t = ConstructorError m)"

text \<open>\<open>errors.Join\<close> drops the nil errors and is nil when none is left.\<close>

definition errors_Join :: "error option list \<Rightarrow> error option" where
  "errors_Join errs =
     (case List.map_filter (\<lambda>e. e) errs of [] \<Rightarrow> None | es \<Rightarrow> Some (Join es))"

text \<open>The decimal digits of \<open>%d\<close>.\<close>

fun decimal :: "nat \<Rightarrow> string" where
  "decimal n =
     (if n < 10 then [''0123456789'' ! n]
      else decimal (n div 10) @ [''0123456789'' ! (n mod 10)])"

section \<open>internal/contracts and the values the injector passes around\<close>

datatype Lifecycle = Transient | Scope | Singleton

text \<open>
  A value that a call produced is named by the call: \<open>Out n i\<close> is output \<open>i\<close> of
  the \<open>n\<close>-th call that the injector made through \<open>reflect.Value.Call\<close>.  Two values
  are the same instance exactly when the same call returned them.
\<close>

datatype gvalue = Out nat nat

text \<open>
  What a function value does when it is called and returns at least two outputs: its
  second output is a nil error, an error, or a value that is not an error.
\<close>

datatype second_output = NilError | AnError string | NotAnError

text \<open>
  A non-nil value passed as \<open>any\<close> for a constructor or a function: its dynamic type,
  a name that tells it from other values, and its second output.  A nil \<open>any\<close> is
  \<open>None\<close>.  Constructors and functions are taken to return and to leave the injector
  alone.
\<close>

datatype govalue = govalue (dyn_type: rtype) (ident: string) (second: second_output)

definition reflect_TypeOf :: "govalue option \<Rightarrow> rtype option" where
  "reflect_TypeOf v = map_option dyn_type v"

text \<open>
  \<open>ConstructorFunction\<close> is the memoized closure of \<open>get\<close>: nil (\<open>None\<close>) until
  \<open>get\<close> builds it, then the closure, which is determined by the \<open>parametersInfo\<close>
  it captured.  The field \<open>Singleton\<close> is \<open>Singleton_slot\<close> here.
\<close>

record ObjectInfo =
  ConstructorType :: "rtype option"
  ConstructorValue :: "govalue option"
  Lifecycle :: Lifecycle
  Singleton_slot :: "gvalue option"
  ConstructorFunction :: "rtype list option"
  ConstructorReturnsError :: bool

datatype ScopedInstance = ScopedInstance (Type: rtype) (Value: "gvalue option")

section \<open>StackPool (src/unnamed/part_003)\<close>

text \<open>
  A pooled slice is modelled by its elements up to its length.  The pool's mutex is
  taken and released inside \<open>CheckIn\<close> and \<open>CheckOut\<close>, which call nothing.
\<close>

type_synonym StackPool = "ScopedInstance list list"

definition CheckIn :: "ScopedInstance list \<Rightarrow> StackPool \<Rightarrow> StackPool" where
  "CheckIn v stacks = stacks @ [v]"

definition CheckOut :: "StackPool \<Rightarrow> ScopedInstance list \<times> StackPool" where
  "CheckOut stacks = (if length stacks = 0 then ([], stacks) else (last stacks, butlast stacks))"

section \<open>The injector\<close>

text \<open>
  \<open>library\<close> maps a key to a pointer to its \<open>ObjectInfo\<close>; a pointer is an index
  into \<open>heap\<close>, the store of the \<open>ObjectInfo\<close> objects that were registered.
  \<open>nameToKeyTrie\<close> holds the pairs added to the trie of \<open>github.com/smarty/tries\<close>,
  newest first; its \<open>Find\<close> is a parameter of \<open>GetByName\<close>.  \<open>trace\<close> records the
  calls made through \<open>reflect.Value.Call\<close>, each with the function value and its
  arguments; it is not a field of the Go struct.
\<close>

record Injector =
  library :: "(rtype, nat) Cache"
  nameToKeyTrie :: "(string \<times> rtype) list"
  scopePool :: StackPool
  verificationError :: "error option"
  verified :: bool
  heap :: "ObjectInfo list"
  trace :: "(govalue \<times> gvalue list) list"

subsection \<open>strategy.go\<close>

text \<open>
  \<open>CacheStrategy\<close> is an \<open>int\<close> with three named values; \<open>generateCache\<close> returns
  nil for any other value, which the model leaves out.
\<close>

datatype CacheStrategy = Map | BubbleList | PriorityList

fun generateCache :: "CacheStrategy \<Rightarrow> (rtype, nat) Cache" where
  "generateCache Map = MapCache NewMap"
| "generateCache BubbleList = BubbleCache new_BubbleList"
| "generateCache PriorityList = PriorityCache new_PriorityList"

subsection \<open>Registration\<close>

definition isStructLike :: "rtype \<Rightarrow> bool" where
  "isStructLike key = (Kind_of key = Struct \<or> Kind_of key = Interface)"

fun validPointerKey :: "rtype \<Rightarrow> bool" where
  "validPointerKey (PointerT keyElemType) = (if isStructLike keyElemType then True else False)"
| "validPointerKey key = False"

text \<open>A name between apostrophes, as the messages print it (\<open>'%s'\<close>).\<close>

definition quoted :: "string \<Rightarrow> string" where
  "quoted s = [CHR 0x27] @ s @ [CHR 0x27]"

text \<open>The last element of \<open>strings.Split(s, ".")\<close>.\<close>

definition last_segment :: "string \<Rightarrow> string" where
  "last_segment s = rev (takeWhile (\<lambda>c. c \<noteq> CHR ''.'') (rev s))"

definition register ::
  "(rtype \<times> rtype) list \<Rightarrow> Injector \<Rightarrow> rtype \<Rightarrow> ObjectInfo \<Rightarrow> (error option \<times> Injector) outcome" where
  "register impls target0 key info =
     (let target = target0\<lparr>verified := False\<rparr> in
      if \<not> isStructLike key \<and> \<not> validPointerKey key
      then Returns (Some (Errorf ErrorNotStructOrInterface ('': type '' @ quoted (Name key))), target)
      else
        (case ConstructorType info of
           None \<Rightarrow> Stops (Panic ''invalid memory address or nil pointer dereference'')
         | Some ct \<Rightarrow>
             if Kind_of ct \<noteq> Func
             then Returns (Some (Errorf ErrorNotAFunction
                    ('': constructor for type '' @ quoted (Name key))), target)
             else if ConstructorReturnsError info \<and> NumOut ct \<noteq> 2
             then Returns (Some (Errorf ErrorWrongNumberOfReturns
                    ('': constructor for type '' @ quoted (Name key)
                       @ '' should have exactly two return values'')), target)
             else if \<not> ConstructorReturnsError info \<and> NumOut ct > 1
             then Returns (Some (Errorf ErrorTooManyReturns
                    ('': constructor for type '' @ quoted (Name key))), target)
             else if \<not> ConstructorReturnsError info \<and> NumOut ct = 0
             then Returns (Some (Errorf ErrorNoReturns
                    ('': constructor for type '' @ quoted (Name key))), target)
             else if \<not> AssignableTo impls (outs ct ! 0) key
             then Returns (Some (Errorf ErrorNotAssignable
                    ('': constructor'' @ [CHR 0x27] @ ''s return type '' @ quoted (Name (outs ct ! 0))
                       @ '' is not assignable to type '' @ quoted (Name key))), target)
             else if IsVariadic ct
             then Returns (Some (Errorf ErrorVariadicArguments
                    ('': constructor for type '' @ quoted (Name key))), target)
             else
               bindO (Cache_Find key Reorder (library target))
                 (\<lambda>(found, lib).
                    case found of
                      Some a \<Rightarrow>
                        Returns (Some (Errorf ErrorAlreadyRegistered
                          ('': constructor for type '' @ quoted (Name key))),
                          target\<lparr>library := lib\<rparr>)
                    | None \<Rightarrow>
                        Returns (None,
                          target\<lparr>library := Cache_Add key (length (heap target)) lib,
                                 nameToKeyTrie := (last_segment (String key), key) # nameToKeyTrie target,
                                 heap := heap target @ [info]\<rparr>))))"

text \<open>
  The injector as a call of \<open>register\<close> leaves it, however the call ends.  The first
  statement of \<open>register\<close> is \<open>target.verified = false\<close>; when the call does not
  return (\<open>info.ConstructorType.Kind()\<close> panics on the nil type of a nil constructor)
  that is the only write it has made.
\<close>

definition register_leaves ::
  "(rtype \<times> rtype) list \<Rightarrow> Injector \<Rightarrow> rtype \<Rightarrow> ObjectInfo \<Rightarrow> Injector" where
  "register_leaves impls target0 key info =
     (case register impls target0 key info of
        Returns (err, target) \<Rightarrow> target
      | Stops h \<Rightarrow> target0\<lparr>verified := False\<rparr>)"

text \<open>
  The six registration methods.  The package-level functions \<open>RegisterScope[Tkey]\<close>
  and so on call them with \<open>reflect.TypeFor[Tkey]()\<close> as the key.
\<close>

definition new_ObjectInfo :: "govalue option \<Rightarrow> Lifecycle \<Rightarrow> bool \<Rightarrow> ObjectInfo" where
  "new_ObjectInfo constructor lifecycle returnsError =
     \<lparr>ConstructorType = reflect_TypeOf constructor,
      ConstructorValue = constructor,
      Lifecycle = lifecycle,
      Singleton_slot = None,
      ConstructorFunction = None,
      ConstructorReturnsError = returnsError\<rparr>"

definition RegisterScope ::
  "(rtype \<times> rtype) list \<Rightarrow> Injector \<Rightarrow> rtype \<Rightarrow> govalue option
     \<Rightarrow> (error option \<times> Injector) outcome" where
  "RegisterScope impls this key constructor =
     register impls this key (new_ObjectInfo constructor Scope False)"

definition RegisterScopeError ::
  "(rtype \<times> rtype) list \<Rightarrow> Injector \<Rightarrow> rtype \<Rightarrow> govalue option
     \<Rightarrow> (error option \<times> Injector) outcome" where
  "RegisterScopeError impls this key constructor =
     register impls this key (new_ObjectInfo constructor Scope True)"

definition RegisterSingleton ::
  "(rtype \<times> rtype) list \<Rightarrow> Injector \<Rightarrow> rtype \<Rightarrow> govalue option
     \<Rightarrow> (error option \<times> Injector) outcome" where
  "RegisterSingleton impls this key constructor =
     register impls this key (new_ObjectInfo constructor Singleton False)"

definition RegisterSingletonError ::
  "(rtype \<times> rtype) list \<Rightarrow> Injector \<Rightarrow> rtype \<Rightarrow> govalue option
     \<Rightarrow> (error option \<times> Injector) outcome" where
  "RegisterSingletonError impls this key constructor =
     register impls this key (new_ObjectInfo constructor Singleton True)"

definition RegisterTransient ::
  "(rtype \<times> rtype) list \<Rightarrow> Injector \<Rightarrow> rtype \<Rightarrow> govalue option
     \<Rightarrow> (error option \<times> Injector) outcome" where
  "RegisterTransient impls this key constructor =
     register impls this key (new_ObjectInfo constructor Transient False)"

definition RegisterTransientError ::
  "(rtype \<times> rtype) list \<Rightarrow> Injector \<Rightarrow> rtype \<Rightarrow> govalue option
     \<Rightarrow> (error option \<times> Injector) outcome" where
  "RegisterTransientError impls this key constructor =
     register impls this key (new_ObjectInfo constructor Transient True)"

subsection \<open>New\<close>

definition Injector_type :: rtype where
  "Injector_type = PointerT (StructT ''injector'' ''Injector'')"

text \<open>The constructor \<open>func() *Injector { return di }\<close> that \<open>New\<close> registers.\<close>

definition self_constructor :: govalue where
  "self_constructor = govalue (FuncT [] [Injector_type] False) ''func() *Injector { return di }'' NilError"

text \<open>
  \<open>New(cacheStrategy ...CacheStrategy)\<close>: the first strategy given, \<open>Map\<close> when none
  is.  The error of the registration is dropped, as in the source.
\<close>

definition New :: "(rtype \<times> rtype) list \<Rightarrow> CacheStrategy list \<Rightarrow> Injector outcome" where
  "New impls cacheStrategy =
     (let strategy = (if length cacheStrategy > 0 then cacheStrategy ! 0 else Map);
          di = \<lparr>library = generateCache strategy,
                nameToKeyTrie = [],
                scopePool = [],
                verificationError = None,
                verified = False,
                heap = [],
                trace = []\<rparr>
      in bindO (RegisterSingleton impls di Injector_type (Some self_constructor))
           (\<lambda>(err, di'). Returns di'))"

subsection \<open>Verify\<close>

text \<open>
  The text \<open>verify\<close> appends to an error: the names of the stack joined by arrows.
  \<open>Name()\<close> on a nil type panics.
\<close>

fun chain_names :: "rtype option list \<Rightarrow> string list outcome" where
  "chain_names [] = Returns []"
| "chain_names (None # stack) = Stops (Panic ''invalid memory address or nil pointer dereference'')"
| "chain_names (Some requirement # stack) =
     bindO (chain_names stack) (\<lambda>names. Returns (Name requirement # names))"

fun arrow_joined :: "string list \<Rightarrow> string" where
  "arrow_joined [] = ''''"
| "arrow_joined [name] = name"
| "arrow_joined (name # names) = name @ '' -> '' @ arrow_joined names"

text \<open>
  The loop of \<open>verifyStack\<close> over the parameters of \<open>focus\<close> that are still to
  visit.  \<open>rec\<close> is the recursive call of \<open>verifyStack\<close>.  The stack is passed by
  pointer in the source: each call returns the stack as it leaves it.
\<close>

fun verifyStack_parameters ::
  "(Injector \<Rightarrow> rtype option list \<Rightarrow> (error option \<times> Injector \<times> rtype option list) outcome)
     \<Rightarrow> rtype list \<Rightarrow> Injector \<Rightarrow> rtype option list
     \<Rightarrow> (error option \<times> Injector \<times> rtype option list) outcome" where
  "verifyStack_parameters rec [] injector stack = Returns (None, injector, stack)"
| "verifyStack_parameters rec (parameterType # rest) injector stack =
     bindO (Cache_Find parameterType NoReorder (library injector))
       (\<lambda>(found, lib).
          case found of
            None \<Rightarrow>
              Returns (Some (Errorf ErrorNotRegistered
                         ('': constructor for type '' @ quoted (Name parameterType))),
                       injector\<lparr>library := lib\<rparr>, stack)
          | Some parameterInfo \<Rightarrow>
              if ConstructorType (heap injector ! parameterInfo) \<in> set stack
              then Returns (Some ErrorDependencyLoop, injector\<lparr>library := lib\<rparr>, stack)
              else
                bindO (rec (injector\<lparr>library := lib\<rparr>)
                         (stack @ [ConstructorType (heap injector ! parameterInfo)]))
                  (\<lambda>(err, injector', stack').
                     case err of
                       Some e \<Rightarrow> Returns (Some e, injector', stack')
                     | None \<Rightarrow> verifyStack_parameters rec rest injector' stack'))"

fun verifyStack ::
  "nat \<Rightarrow> Injector \<Rightarrow> rtype option list
     \<Rightarrow> (error option \<times> Injector \<times> rtype option list) outcome" where
  "verifyStack 0 injector stack = Stops OutOfFuel"
| "verifyStack (Suc fuel) injector stack =
     (if stack = [] then Stops (Panic ''index out of range [-1]'')
      else
        bindO (parametersInfo (last stack))
          (\<lambda>parameters.
             bindO (verifyStack_parameters (verifyStack fuel) parameters injector stack)
               (\<lambda>(err, injector', stack').
                  case err of
                    Some e \<Rightarrow> Returns (Some e, injector', stack')
                  | None \<Rightarrow>
                      if stack' = [] then Stops (Panic ''slice bounds out of range [:-1]'')
                      else Returns (None, injector', butlast stack'))))"

text \<open>
  \<open>verify\<close> drops the found flag of \<open>Find\<close>; for a key that is not in the library
  \<open>info\<close> is a nil pointer and reading its field panics.
\<close>

definition verify :: "nat \<Rightarrow> Injector \<Rightarrow> rtype \<Rightarrow> (error option \<times> Injector) outcome" where
  "verify fuel injector key =
     bindO (Cache_Find key NoReorder (library injector))
       (\<lambda>(found, lib).
          case found of
            None \<Rightarrow> Stops (Panic ''invalid memory address or nil pointer dereference'')
          | Some info \<Rightarrow>
              bindO (verifyStack fuel (injector\<lparr>library := lib\<rparr>)
                       [ConstructorType (heap injector ! info)])
                (\<lambda>(err, injector', stack).
                   case err of
                     None \<Rightarrow> Returns (None, injector')
                   | Some e \<Rightarrow>
                       bindO (chain_names stack)
                         (\<lambda>names. Returns (Some (Errorf e ([CHR 0x0A, CHR 0x09] @ arrow_joined names)),
                                            injector'))))"

text \<open>The loop of \<open>Verify\<close> over the keys that \<open>All()\<close> yields.\<close>

fun Verify_keys :: "nat \<Rightarrow> rtype list \<Rightarrow> Injector \<Rightarrow> (error option \<times> Injector) outcome" where
  "Verify_keys fuel [] injector = Returns (None, injector)"
| "Verify_keys fuel (key # keys) injector =
     bindO (verify fuel injector key)
       (\<lambda>(err, injector').
          case err of
            Some e \<Rightarrow> Returns (Some e, injector'\<lparr>verificationError := Some e\<rparr>)
          | None \<Rightarrow> Verify_keys fuel keys injector')"

definition Verify :: "nat \<Rightarrow> Injector \<Rightarrow> (error option \<times> Injector) outcome" where
  "Verify fuel injector0 =
     (let injector = injector0\<lparr>verified := False, verificationError := None,
                               library := Cache_Prepare (library injector0)\<rparr>
      in bindO (Cache_All_enter (library injector))
           (\<lambda>(pairs, lib).
              bindO (Verify_keys fuel (map fst pairs) (injector\<lparr>library := lib\<rparr>))
                (\<lambda>(err, injector').
                   case err of
                     Some e \<Rightarrow> Returns (Some e, injector'\<lparr>library := Cache_All_exit (library injector')\<rparr>)
                   | None \<Rightarrow>
                       Returns (None, injector'\<lparr>library := Cache_All_exit (library injector'),
                                                verified := True\<rparr>))))"

subsection \<open>Resolution\<close>

definition assertValidState :: "Injector \<Rightarrow> error option" where
  "assertValidState injector =
     (if \<not> verified injector then
        (case verificationError injector of
           Some ve \<Rightarrow>
             Some (Errorf2 ErrorBadState '': injector is in a bad state with verification error: '' ve)
         | None \<Rightarrow>
             Some (Errorf ErrorBadState
               '': injector is not in a verified state, call Verify() on injector after registering all types''))
      else None)"

text \<open>
  \<open>reflect.Value.Call\<close>: the call is appended to the trace, and its outputs are named
  by its position there, one for each result type of the function.
\<close>

definition reflect_Call :: "govalue \<Rightarrow> gvalue list \<Rightarrow> Injector \<Rightarrow> gvalue list \<times> Injector" where
  "reflect_Call f args injector =
     (map (Out (length (trace injector))) [0..<NumOut (dyn_type f)],
      injector\<lparr>trace := trace injector @ [(f, args)]\<rparr>)"

text \<open>
  The result of \<open>get\<close> and of the closure: the pair \<open>(value, err)\<close> that the Go
  function returns (either may be nil), the injector and the scope stack as the call
  leaves them.
\<close>

type_synonym resolution =
  "((gvalue option \<times> error option) \<times> Injector \<times> ScopedInstance list) outcome"

text \<open>
  The closure that \<open>get\<close> stores in \<open>info.ConstructorFunction\<close>.  \<open>rec\<close> is the
  recursive call of \<open>get\<close>, \<open>info\<close> the pointer the closure captured, \<open>parameters\<close> the
  part of the captured \<open>parametersInfo\<close> still to resolve, \<open>values\<close> the arguments
  resolved so far.  (The source keeps \<open>values\<close> in one slice per closure; every slot is
  written before the call reads it.)  \<open>rawValue.(reflect.Value)\<close> panics on a nil
  \<open>rawValue\<close>, \<open>returns[i]\<close> on a missing output, \<open>errorRaw.(error)\<close> on a second
  output that is not an error.
\<close>

fun ConstructorFunction_call ::
  "(Injector \<Rightarrow> rtype \<Rightarrow> ScopedInstance list \<Rightarrow> resolution)
     \<Rightarrow> nat \<Rightarrow> rtype list \<Rightarrow> gvalue list \<Rightarrow> Injector \<Rightarrow> ScopedInstance list \<Rightarrow> resolution" where
  "ConstructorFunction_call rec info [] values injector scopedList =
     (case ConstructorValue (heap injector ! info) of
        None \<Rightarrow> Stops (Panic ''reflect: call of reflect.Value.Call on zero Value'')
      | Some f \<Rightarrow>
          (case reflect_Call f values injector of
             (returns, injector') \<Rightarrow>
               if ConstructorReturnsError (heap injector' ! info) then
                 (if length returns < 2 then Stops (Panic ''index out of range [1]'')
                  else
                    (case second f of
                       NilError \<Rightarrow> Returns ((Some (returns ! 0), None), injector', scopedList)
                     | AnError m \<Rightarrow>
                         Returns ((Some (returns ! 0), Some (ConstructorError m)), injector', scopedList)
                     | NotAnError \<Rightarrow>
                         Stops (Panic ''interface conversion: value is not error'')))
               else
                 (if length returns < 1 then Stops (Panic ''index out of range [0]'')
                  else Returns ((Some (returns ! 0), None), injector', scopedList))))"
| "ConstructorFunction_call rec info (parameter # rest) values injector scopedList =
     bindO (rec injector parameter scopedList)
       (\<lambda>((rawValue, err), injector', scopedList').
          case err of
            Some e \<Rightarrow> Returns ((None, Some e), injector', scopedList')
          | None \<Rightarrow>
              (case rawValue of
                 None \<Rightarrow> Stops (Panic ''interface conversion: interface {} is nil, not reflect.Value'')
               | Some v \<Rightarrow>
                   ConstructorFunction_call rec info rest (values @ [v]) injector' scopedList'))"

text \<open>
  The part of \<open>get\<close> behind the first \<open>switch\<close>: build the closure, store it, call
  it, and keep the object as the lifecycle asks.
\<close>

definition get_build ::
  "(Injector \<Rightarrow> rtype \<Rightarrow> ScopedInstance list \<Rightarrow> resolution)
     \<Rightarrow> nat \<Rightarrow> rtype \<Rightarrow> Injector \<Rightarrow> ScopedInstance list \<Rightarrow> resolution" where
  "get_build rec info key injector scoped =
     bindO (parametersInfo (ConstructorType (heap injector ! info)))
       (\<lambda>parameters.
          bindO (ConstructorFunction_call rec info parameters []
                   (injector\<lparr>heap := (heap injector)
                      [info := (heap injector ! info)\<lparr>ConstructorFunction := Some parameters\<rparr>]\<rparr>)
                   scoped)
            (\<lambda>((obj, e), injector', scoped').
               case e of
                 Some e' \<Rightarrow> Returns ((None, Some e'), injector', scoped')
               | None \<Rightarrow>
                   (case Lifecycle (heap injector' ! info) of
                      Scope \<Rightarrow> Returns ((obj, None), injector', scoped' @ [ScopedInstance key obj])
                    | Singleton \<Rightarrow>
                        Returns ((obj, None),
                          injector'\<lparr>heap := (heap injector')
                             [info := (heap injector' ! info)\<lparr>Singleton_slot := obj\<rparr>]\<rparr>,
                          scoped')
                    | Transient \<Rightarrow> Returns ((obj, None), injector', scoped'))))"

fun get :: "nat \<Rightarrow> Injector \<Rightarrow> rtype \<Rightarrow> ScopedInstance list \<Rightarrow> resolution" where
  "get 0 injector key scoped = Stops OutOfFuel"
| "get (Suc fuel) injector0 key scoped =
     bindO (Cache_Find key Reorder (library injector0))
       (\<lambda>(found, lib).
          case found of
            None \<Rightarrow>
              Returns ((None, Some (Errorf ErrorNotRegistered ('': type '' @ quoted (Name key)))),
                       injector0\<lparr>library := lib\<rparr>, scoped)
          | Some info \<Rightarrow>
              (let injector = injector0\<lparr>library := lib\<rparr> in
               case Lifecycle (heap injector ! info) of
                 Scope \<Rightarrow>
                   (case find (\<lambda>scopedItem. Type scopedItem = key) scoped of
                      Some scopedItem \<Rightarrow> Returns ((Value scopedItem, None), injector, scoped)
                    | None \<Rightarrow>
                        (case ConstructorFunction (heap injector ! info) of
                           Some parameters \<Rightarrow>
                             bindO (ConstructorFunction_call (get fuel) info parameters [] injector scoped)
                               (\<lambda>((obj, e), injector', scoped').
                                  case e of
                                    Some e' \<Rightarrow> Returns ((None, Some e'), injector', scoped')
                                  | None \<Rightarrow>
                                      Returns ((obj, None), injector',
                                               scoped' @ [ScopedInstance key obj]))
                         | None \<Rightarrow> get_build (get fuel) info key injector scoped))
               | Singleton \<Rightarrow>
                   (case Singleton_slot (heap injector ! info) of
                      Some v \<Rightarrow> Returns ((Some v, None), injector, scoped)
                    | None \<Rightarrow> get_build (get fuel) info key injector scoped)
               | Transient \<Rightarrow>
                   (case ConstructorFunction (heap injector ! info) of
                      Some parameters \<Rightarrow>
                        ConstructorFunction_call (get fuel) info parameters [] injector scoped
                    | None \<Rightarrow> get_build (get fuel) info key injector scoped)))"

text \<open>
  \<open>Get\<close>.  The argument of the deferred \<open>CheckIn\<close> is evaluated at the \<open>defer\<close>
  statement: the pool gets back the slice as it was checked out, not as \<open>get\<close>
  extended it.  The package-level \<open>Get[Tkey]\<close> calls the method with
  \<open>reflect.TypeFor[Tkey]()\<close>.
\<close>

definition Get ::
  "nat \<Rightarrow> Injector \<Rightarrow> rtype \<Rightarrow> ((gvalue option \<times> error option) \<times> Injector) outcome" where
  "Get fuel this key =
     (case assertValidState this of
        Some err \<Rightarrow> Returns ((None, Some err), this)
      | None \<Rightarrow>
          (case CheckOut (scopePool this) of
             (scopedStack, pool) \<Rightarrow>
               bindO (get fuel (this\<lparr>scopePool := pool\<rparr>) key scopedStack)
                 (\<lambda>((objAsAny, err), this', scoped').
                    case err of
                      Some e \<Rightarrow>
                        Returns ((None, Some e),
                                 this'\<lparr>scopePool := CheckIn scopedStack (scopePool this')\<rparr>)
                    | None \<Rightarrow>
                        Returns ((objAsAny, None),
                                 this'\<lparr>scopePool := CheckIn scopedStack (scopePool this')\<rparr>))))"

text \<open>
  \<open>GetByName\<close>.  \<open>trie_Find\<close> is \<open>Find\<close> of the trie, a library outside this
  repository: given the pairs added so far and a name it gives the key found, if any.
\<close>

definition GetByName ::
  "((string \<times> rtype) list \<Rightarrow> string \<Rightarrow> rtype option) \<Rightarrow> nat \<Rightarrow> Injector \<Rightarrow> string
     \<Rightarrow> ((gvalue option \<times> error option) \<times> Injector) outcome" where
  "GetByName trie_Find fuel this name =
     (case trie_Find (nameToKeyTrie this) name of
        None \<Rightarrow>
          Returns ((None, Some (Errorf ErrorNotRegistered
                     ('': no keys that match the string pattern '' @ [CHR 0x22] @ name @ [CHR 0x22]
                        @ '' have been registered''))),
                   this)
      | Some key \<Rightarrow> Get fuel this key)"

subsection \<open>Function-call injection\<close>

text \<open>
  The loop of the function literal in \<open>callN\<close>: an error of \<open>get\<close> is joined to
  \<open>err\<close> and the loop goes on to \<open>rawValue.(reflect.Value)\<close>.
\<close>

fun callN_parameters ::
  "(Injector \<Rightarrow> rtype \<Rightarrow> ScopedInstance list \<Rightarrow> resolution)
     \<Rightarrow> rtype list \<Rightarrow> gvalue list \<Rightarrow> error option \<Rightarrow> Injector \<Rightarrow> ScopedInstance list
     \<Rightarrow> ((gvalue list \<times> error option) \<times> Injector \<times> ScopedInstance list) outcome" where
  "callN_parameters rec [] values err this scopedList = Returns ((values, err), this, scopedList)"
| "callN_parameters rec (parameter # rest) values err this scopedList =
     bindO (rec this parameter scopedList)
       (\<lambda>((rawValue, e), this', scopedList').
          case rawValue of
            None \<Rightarrow> Stops (Panic ''interface conversion: interface {} is nil, not reflect.Value'')
          | Some v \<Rightarrow>
              callN_parameters rec rest (values @ [v])
                (case e of Some e' \<Rightarrow> errors_Join [err, Some e'] | None \<Rightarrow> err)
                this' scopedList')"

text \<open>
  \<open>callN\<close>.  \<open>returns\<close> is a slice that may be nil (\<open>None\<close>).  The function literal
  calls the function after its loop, whatever \<open>err\<close> is; \<open>err\<close> is looked at after
  the call.
\<close>

definition callN ::
  "nat \<Rightarrow> Injector \<Rightarrow> govalue option \<Rightarrow> nat
     \<Rightarrow> ((gvalue list option \<times> error option) \<times> Injector) outcome" where
  "callN fuel this function expectedReturnCount =
     (case (reflect_TypeOf function, function) of
        (Some functionType, Some functionValue) \<Rightarrow>
          if Kind_of functionType \<noteq> Func
          then Returns ((None, Some (Errorf ErrorNotAFunction
                 ('': for value type with name '' @ quoted (Name functionType)))), this)
          else if NumOut functionType \<noteq> expectedReturnCount
          then Returns ((None, Some (Errorf ErrorWrongNumberOfReturns
                 ('': expected passed function to have ['' @ decimal expectedReturnCount
                    @ ''] return values, but it has ['' @ decimal (NumOut functionType)
                    @ ''] return values''))), this)
          else if IsVariadic functionType
          then Returns ((None, Some ErrorVariadicArguments), this)
          else
            (case CheckOut (scopePool this) of
               (scopedStack, pool) \<Rightarrow>
                 bindO (callN_parameters (get fuel) (ins functionType) [] None
                          (this\<lparr>scopePool := pool\<rparr>) scopedStack)
                   (\<lambda>((values, err), this', scoped').
                      case reflect_Call functionValue values this' of
                        (returnValues, this'') \<Rightarrow>
                          (case err of
                             Some e \<Rightarrow>
                               Returns ((None, Some e),
                                        this''\<lparr>scopePool := CheckIn scopedStack (scopePool this'')\<rparr>)
                           | None \<Rightarrow>
                               Returns ((Some returnValues, None),
                                        this''\<lparr>scopePool := CheckIn scopedStack (scopePool this'')\<rparr>))))
      | _ \<Rightarrow> Stops (Panic ''invalid memory address or nil pointer dereference''))"

text \<open>\<open>returns[i]\<close> on the slice that \<open>callN\<close> returned.\<close>

definition slice_index :: "gvalue list option \<Rightarrow> nat \<Rightarrow> gvalue outcome" where
  "slice_index returns i =
     (case returns of
        None \<Rightarrow> Stops (Panic (''index out of range ['' @ decimal i @ ''] with length 0''))
      | Some rs \<Rightarrow>
          if i < length rs then Returns (rs ! i)
          else Stops (Panic (''index out of range ['' @ decimal i @ ''] with length ''
                               @ decimal (length rs))))"

text \<open>
  The methods \<open>Call\<close>, \<open>Call1\<close> to \<open>Call4\<close> and \<open>CallN\<close>.  The package-level functions
  of the same names make the same call of \<open>callN\<close> and index \<open>returns\<close> in the same
  way (before asserting the type of each result).
\<close>

definition Call :: "nat \<Rightarrow> Injector \<Rightarrow> govalue option \<Rightarrow> (error option \<times> Injector) outcome" where
  "Call fuel this function =
     bindO (callN fuel this function 0) (\<lambda>((returns, err), this'). Returns (err, this'))"

definition Call1 ::
  "nat \<Rightarrow> Injector \<Rightarrow> govalue option \<Rightarrow> ((gvalue \<times> error option) \<times> Injector) outcome" where
  "Call1 fuel this function =
     bindO (callN fuel this function 1)
       (\<lambda>((returns, err), this').
          bindO (slice_index returns 0) (\<lambda>r1. Returns ((r1, err), this')))"

definition Call2 ::
  "nat \<Rightarrow> Injector \<Rightarrow> govalue option
     \<Rightarrow> ((gvalue \<times> gvalue \<times> error option) \<times> Injector) outcome" where
  "Call2 fuel this function =
     bindO (callN fuel this function 2)
       (\<lambda>((returns, err), this').
          bindO (slice_index returns 0) (\<lambda>r1.
          bindO (slice_index returns 1) (\<lambda>r2. Returns ((r1, r2, err), this'))))"

definition Call3 ::
  "nat \<Rightarrow> Injector \<Rightarrow> govalue option
     \<Rightarrow> ((gvalue \<times> gvalue \<times> gvalue \<times> error option) \<times> Injector) outcome" where
  "Call3 fuel this function =
     bindO (callN fuel this function 3)
       (\<lambda>((returns, err), this').
          bindO (slice_index returns 0) (\<lambda>r1.
          bindO (slice_index returns 1) (\<lambda>r2.
          bindO (slice_index returns 2) (\<lambda>r3. Returns ((r1, r2, r3, err), this')))))"

definition Call4 ::
  "nat \<Rightarrow> Injector \<Rightarrow> govalue option
     \<Rightarrow> ((gvalue \<times> gvalue \<times> gvalue \<times> gvalue \<times> error option) \<times> Injector) outcome" where
  "Call4 fuel this function =
     bindO (callN fuel this function 4)
       (\<lambda>((returns, err), this').
          bindO (slice_index returns 0) (\<lambda>r1.
          bindO (slice_index returns 1) (\<lambda>r2.
          bindO (slice_index returns 2) (\<lambda>r3.
          bindO (slice_index returns 3) (\<lambda>r4. Returns ((r1, r2, r3, r4, err), this'))))))"

text \<open>\<open>CallN\<close> reads \<open>reflect.TypeOf(function).NumOut()\<close> before it calls \<open>callN\<close>.\<close>

definition CallN ::
  "nat \<Rightarrow> Injector \<Rightarrow> govalue option
     \<Rightarrow> ((gvalue list option \<times> error option) \<times> Injector) outcome" where
  "CallN fuel this function =
     (case reflect_TypeOf function of
        None \<Rightarrow> Stops (Panic ''invalid memory address or nil pointer dereference'')
      | Some functionType \<Rightarrow>
          if Kind_of functionType \<noteq> Func
          then Stops (Panic ''reflect: NumOut of non-func type'')
          else callN fuel this function (NumOut functionType))"

section \<open>internal/test: the types and constructors of the tests\<close>

text \<open>
  The interfaces and constructors of package \<open>test\<close> (src/unnamed/part_001), by their
  signatures, and the types of the package that implement its interfaces.
\<close>

definition Car :: rtype where "Car = InterfaceT ''test'' ''Car''"
definition Driver :: rtype where "Driver = InterfaceT ''test'' ''Driver''"
definition Counter :: rtype where "Counter = InterfaceT ''test'' ''Counter''"
definition CounterWrapper :: rtype where "CounterWrapper = InterfaceT ''test'' ''CounterWrapper''"

definition test_impls :: "(rtype \<times> rtype) list" where
  "test_impls =
     [(PointerT (StructT ''test'' ''RegularCar''), Car),
      (PointerT (StructT ''test'' ''RegularDriver''), Driver),
      (PointerT (StructT ''test'' ''LoopDriver''), Driver),
      (PointerT (StructT ''test'' ''CallCounter''), Counter),
      (PointerT (StructT ''test'' ''CallCounterWrapper''), CounterWrapper)]"

definition NewRegularCar :: govalue where
  "NewRegularCar = govalue (FuncT [Driver] [Car] False) ''NewRegularCar'' NilError"

definition NewRegularDriver :: govalue where
  "NewRegularDriver = govalue (FuncT [] [Driver] False) ''NewRegularDriver'' NilError"

definition NewLoopDriver :: govalue where
  "NewLoopDriver = govalue (FuncT [Car] [Driver] False) ''NewLoopDriver'' NilError"

definition NewCallCounter :: govalue where
  "NewCallCounter =
     govalue (FuncT [] [PointerT (StructT ''test'' ''CallCounter'')] False) ''NewCallCounter'' NilError"

definition NewCallCounterWrapper :: govalue where
  "NewCallCounterWrapper =
     govalue (FuncT [Counter, Counter] [PointerT (StructT ''test'' ''CallCounterWrapper'')] False)
       ''NewCallCounterWrapper'' NilError"

text \<open>
  The constructor of \<open>TestRegisterSingletonError_RuntimeErrorPropagates\<close>:
  \<open>func() (Car, error) { return nil, errors.New("boom") }\<close>.
\<close>

definition boom :: govalue where
  "boom = govalue (FuncT [] [Car, InterfaceT '''' ''error''] False) ''boom'' (AnError ''boom'')"

text \<open>What a call gave back to its caller, and the injector it left.\<close>

fun returned :: "('a \<times> Injector) outcome \<Rightarrow> 'a outcome" where
  "returned (Returns (x, injector)) = Returns x"
| "returned (Stops h) = Stops h"

fun left :: "('a \<times> Injector) outcome \<Rightarrow> Injector option" where
  "left (Returns (x, injector)) = Some injector"
| "left (Stops h) = None"

section \<open>The injector that New returns\<close>

definition new_injector :: "CacheStrategy \<Rightarrow> Injector" where
  "new_injector strategy =
     \<lparr>library = Cache_Add Injector_type 0 (generateCache strategy),
      nameToKeyTrie = [(''Injector'', Injector_type)],
      scopePool = [],
      verificationError = None,
      verified = False,
      heap = [new_ObjectInfo (Some self_constructor) Singleton False],
      trace = []\<rparr>"

section \<open>Functions and values passed to the Call family in the examples\<close>

text \<open>\<open>func(di *Injector) {}\<close>, \<open>func(d Driver) {}\<close>, \<open>func(c Car) {}\<close> and the value \<open>42\<close>.\<close>

definition takes_Injector :: govalue where
  "takes_Injector = govalue (FuncT [Injector_type] [] False) ''func(di *Injector) {}'' NilError"

definition takes_Driver :: govalue where
  "takes_Driver = govalue (FuncT [Driver] [] False) ''func(d Driver) {}'' NilError"

definition takes_Car :: govalue where
  "takes_Car = govalue (FuncT [Car] [] False) ''func(c Car) {}'' NilError"

definition forty_two :: govalue where
  "forty_two = govalue (BasicT ''int'') ''42'' NilError"

text \<open>A variadic constructor, \<open>func(c ...Car) Car\<close>.\<close>

definition variadic_Car :: govalue where
  "variadic_Car = govalue (FuncT [Car] [Car] True) ''func(c ...Car) Car'' NilError"

text \<open>The injector of \<open>New\<close> after a successful \<open>Verify\<close>.\<close>

definition verified_injector :: "CacheStrategy \<Rightarrow> Injector" where
  "verified_injector strategy = (new_injector strategy)\<lparr>verified := True\<rparr>"

text \<open>
  The injector of \<open>TestTypeAlreadyRegistered\<close> after its first registration:
  \<open>New()\<close>, then \<open>RegisterSingleton[Car](di, NewRegularCar)\<close>.
\<close>

definition car_injector :: Injector where
  "car_injector =
     (new_injector Map)
       \<lparr>library := Cache_Add Car 1 (library (new_injector Map)),
        nameToKeyTrie := (''Car'', Car) # nameToKeyTrie (new_injector Map),
        heap := heap (new_injector Map) @ [new_ObjectInfo (Some NewRegularCar) Singleton False]\<rparr>"

text \<open>
  The injector of \<open>TestRegisterSingletonError_RuntimeErrorPropagates\<close> with a transient
  registration: \<open>New()\<close>, \<open>RegisterTransientError[Car](di, boom)\<close>, \<open>Verify(di)\<close>; and
  the same injector after one \<open>Get[Car](di)\<close>, which stored the closure of \<open>Car\<close>,
  called \<open>boom\<close> once and returned the stack to the pool.
\<close>

definition boom_injector :: Injector where
  "boom_injector =
     (new_injector Map)
       \<lparr>library := Cache_Add Car 1 (library (new_injector Map)),
        nameToKeyTrie := (''Car'', Car) # nameToKeyTrie (new_injector Map),
        heap := heap (new_injector Map) @ [new_ObjectInfo (Some boom) Transient True],
        verified := True\<rparr>"

definition boom_injector_after_Get :: Injector where
  "boom_injector_after_Get =
     boom_injector
       \<lparr>heap := (heap boom_injector)
          [1 := (new_ObjectInfo (Some boom) Transient True)\<lparr>ConstructorFunction := Some []\<rparr>],
        trace := [(boom, [])],
        scopePool := [[]]\<rparr>"

section \<open>The dependency graph of a registry\<close>

text \<open>
  \<open>signature_of\<close> is the constructor type registered for a key (none for a key that is
  not registered).  Key \<open>k\<close> requires key \<open>p\<close> when \<open>p\<close> is a parameter type of the
  constructor registered for \<open>k\<close>.  A registry is fully registered when every object in
  it has a function type as its constructor type and every parameter type of that type is
  a registered key.  \<open>strategy_of\<close> names the implementation behind a cache.
\<close>

definition signature_of :: "Injector \<Rightarrow> rtype \<Rightarrow> rtype option" where
  "signature_of injector k =
     (case Cache_lookup (library injector) k of
        None \<Rightarrow> None
      | Some info \<Rightarrow> ConstructorType (heap injector ! info))"

definition requires :: "Injector \<Rightarrow> rtype \<Rightarrow> rtype \<Rightarrow> bool" where
  "requires injector k p =
     (case signature_of injector k of None \<Rightarrow> False | Some ft \<Rightarrow> p \<in> set (ins ft))"

definition fully_registered :: "Injector \<Rightarrow> bool" where
  "fully_registered injector =
     list_all
       (\<lambda>(k, info).
          case ConstructorType (heap injector ! info) of
            None \<Rightarrow> False
          | Some ft \<Rightarrow>
              Kind_of ft = Func \<and>
              list_all (\<lambda>p. Cache_lookup (library injector) p \<noteq> None) (ins ft))
       (Cache_pairs (library injector))"

fun strategy_of :: "('k, 'v) Cache \<Rightarrow> CacheStrategy" where
  "strategy_of (MapCache m) = Map"
| "strategy_of (BubbleCache b) = BubbleList"
| "strategy_of (PriorityCache p) = PriorityList"

text \<open>The constructor types of the objects in the library, one for each pair.\<close>

definition registered_signatures :: "Injector \<Rightarrow> rtype option list" where
  "registered_signatures injector =
     map (\<lambda>(k, info). ConstructorType (heap injector ! info)) (Cache_pairs (library injector))"

text \<open>
  The error that \<open>verify\<close> returns for a dependency loop met with the given constructor
  types on the stack: \<open>ErrorDependencyLoop\<close> wrapped with a newline, a tab and the names
  of the stack joined by arrows.
\<close>

definition DependencyLoop_at :: "rtype list \<Rightarrow> error" where
  "DependencyLoop_at path =
     Errorf ErrorDependencyLoop ([CHR 0x0A, CHR 0x09] @ arrow_joined (map Name path))"

text \<open>
  The injector of \<open>TestDependencyLoop\<close> before \<open>Verify\<close>: \<open>New()\<close>,
  \<open>RegisterSingleton[Car](di, NewRegularCar)\<close>, \<open>RegisterSingleton[Driver](di,
  NewLoopDriver)\<close>.  \<open>Car\<close> requires \<open>Driver\<close> and \<open>Driver\<close> requires \<open>Car\<close>.
\<close>

definition loop_injector :: Injector where
  "loop_injector =
     car_injector
       \<lparr>library := Cache_Add Driver 2 (library car_injector),
        nameToKeyTrie := (''Driver'', Driver) # nameToKeyTrie car_injector,
        heap := heap car_injector @ [new_ObjectInfo (Some NewLoopDriver) Singleton False]\<rparr>"

text \<open>
  A constructor \<open>func(d Driver, c Car) Car\<close>, and the injector after \<open>New()\<close> and
  \<open>RegisterSingleton[Car]\<close> with it: \<open>Car\<close> requires itself, and \<open>Driver\<close>, which is
  not registered.
\<close>

definition NewSelfishCar :: govalue where
  "NewSelfishCar = govalue (FuncT [Driver, Car] [Car] False) ''func(d Driver, c Car) Car'' NilError"

definition selfish_injector :: Injector where
  "selfish_injector =
     (new_injector Map)
       \<lparr>library := Cache_Add Car 1 (library (new_injector Map)),
        nameToKeyTrie := (''Car'', Car) # nameToKeyTrie (new_injector Map),
        heap := heap (new_injector Map) @ [new_ObjectInfo (Some NewSelfishCar) Singleton False]\<rparr>"

text \<open>
  A constructor \<open>func(c Car) Car\<close>, and the injector after \<open>New()\<close> and
  \<open>RegisterSingleton[Car]\<close> with it: \<open>Car\<close> requires itself directly.
\<close>

definition NewSelfCar :: govalue where
  "NewSelfCar = govalue (FuncT [Car] [Car] False) ''func(c Car) Car'' NilError"

definition self_injector :: Injector where
  "self_injector =
     (new_injector Map)
       \<lparr>library := Cache_Add Car 1 (library (new_injector Map)),
        nameToKeyTrie := (''Car'', Car) # nameToKeyTrie (new_injector Map),
        heap := heap (new_injector Map) @ [new_ObjectInfo (Some NewSelfCar) Singleton False]\<rparr>"

section \<open>What a run of verifyStack leaves behind\<close>

text \<open>
  \<open>vs_post\<close>: a run that returns leaves the injector as it was; without an error the
  stack is the one it was given (less its last element when the run pops, as
  \<open>verifyStack\<close> does and its loop does not), with an error the stack has grown.
  \<open>vs_total\<close>: the run returns, without an error or with \<open>ErrorDependencyLoop\<close> and a
  stack grown by registered constructor types.
\<close>

definition vs_post ::
  "Injector \<Rightarrow> rtype option list \<Rightarrow> bool \<Rightarrow> (error option \<times> Injector \<times> rtype option list) outcome \<Rightarrow> bool" where
  "vs_post injector stack pops r =
     (case r of
        Returns (None, injector', stack') \<Rightarrow>
          injector' = injector \<and> stack' = (if pops then butlast stack else stack)
      | Returns (Some e, injector', stack') \<Rightarrow>
          injector' = injector \<and> (\<exists>ext. stack' = stack @ ext)
      | Stops h \<Rightarrow> True)"

definition vs_total ::
  "Injector \<Rightarrow> rtype option list \<Rightarrow> bool \<Rightarrow> (error option \<times> Injector \<times> rtype option list) outcome \<Rightarrow> bool" where
  "vs_total injector stack pops r =
     (r = Returns (None, injector, if pops then butlast stack else stack) \<or>
      (\<exists>ext. r = Returns (Some ErrorDependencyLoop, injector, stack @ ext) \<and>
             set ext \<subseteq> set (registered_signatures injector)))"

section \<open>Scoped instances\<close>

text \<open>
  The injector of \<open>TestScope\<close> after \<open>Verify\<close>: \<open>New()\<close>,
  \<open>RegisterScope[Counter](di, NewCallCounter)\<close>,
  \<open>RegisterTransient[CounterWrapper](di, NewCallCounterWrapper)\<close>, \<open>Verify(di)\<close>.  Then
  the same injector after one \<open>Get[CounterWrapper](di)\<close>, after a second one, after a
  \<open>Get[Counter](di)\<close> that follows, and after a \<open>Call\<close> of
  \<open>func(a Counter, b Counter) {}\<close> that follows: each call stores closures that were
  missing, appends its constructor calls to the trace and leaves one empty stack in the
  pool.
\<close>

definition counter_injector :: Injector where
  "counter_injector =
     (new_injector Map)
       \<lparr>library := Cache_Add CounterWrapper 2 (Cache_Add Counter 1 (library (new_injector Map))),
        nameToKeyTrie := (''CounterWrapper'', CounterWrapper) # (''Counter'', Counter) #
                           nameToKeyTrie (new_injector Map),
        heap := heap (new_injector Map) @
                  [new_ObjectInfo (Some NewCallCounter) Scope False,
                   new_ObjectInfo (Some NewCallCounterWrapper) Transient False],
        verified := True\<rparr>"

definition takes_Counters :: govalue where
  "takes_Counters = govalue (FuncT [Counter, Counter] [] False) ''func(a Counter, b Counter) {}'' NilError"

definition counter_injector_after_Get :: Injector where
  "counter_injector_after_Get =
     counter_injector
       \<lparr>heap := (heap counter_injector)
          [1 := (new_ObjectInfo (Some NewCallCounter) Scope False)\<lparr>ConstructorFunction := Some []\<rparr>,
           2 := (new_ObjectInfo (Some NewCallCounterWrapper) Transient False)
                  \<lparr>ConstructorFunction := Some [Counter, Counter]\<rparr>],
        trace := [(NewCallCounter, []), (NewCallCounterWrapper, [Out 0 0, Out 0 0])],
        scopePool := [[]]\<rparr>"

definition counter_injector_after_second_Get :: Injector where
  "counter_injector_after_second_Get =
     counter_injector_after_Get
       \<lparr>trace := trace counter_injector_after_Get @
                   [(NewCallCounter, []), (NewCallCounterWrapper, [Out 2 0, Out 2 0])]\<rparr>"

definition counter_injector_after_third_Get :: Injector where
  "counter_injector_after_third_Get =
     counter_injector_after_second_Get
       \<lparr>trace := trace counter_injector_after_second_Get @ [(NewCallCounter, [])]\<rparr>"

definition counter_injector_after_Call :: Injector where
  "counter_injector_after_Call =
     counter_injector_after_third_Get
       \<lparr>trace := trace counter_injector_after_third_Get @
                   [(NewCallCounter, []), (takes_Counters, [Out 5 0, Out 5 0])]\<rparr>"

text \<open>
  What \<open>get\<close> reads of an object and never writes is its \<open>static_info\<close>.  The stored
  closure of an object is \<open>memo_ok\<close> when it captured the parameter types of the
  object's constructor type, as the closure that \<open>get\<close> builds does.  An injector is
  \<open>resolvable\<close> when no call on its library is in progress, every pointer in its
  library points to an object of its store and every stored closure is \<open>memo_ok\<close>;
  its constructors are typed when the constructor type of every object is the type of
  its constructor value, as the registration methods write them.  Two injectors have
  the \<open>same_registry\<close> when they hold the same keys with the same pointers and objects
  with the same \<open>static_info\<close>.
\<close>

definition static_info :: "ObjectInfo \<Rightarrow> rtype option \<times> govalue option \<times> Lifecycle \<times> bool" where
  "static_info info =
     (ConstructorType info, ConstructorValue info, Lifecycle info, ConstructorReturnsError info)"

definition memo_ok :: "ObjectInfo \<Rightarrow> bool" where
  "memo_ok info =
     (case ConstructorFunction info of
        None \<Rightarrow> True
      | Some parameters \<Rightarrow>
          (case ConstructorType info of
             None \<Rightarrow> False
           | Some ft \<Rightarrow> Kind_of ft = Func \<and> parameters = ins ft))"

definition resolvable :: "Injector \<Rightarrow> bool" where
  "resolvable injector =
     (Cache_idle (library injector) \<and>
      list_all (\<lambda>(k, info). info < length (heap injector) \<and> memo_ok (heap injector ! info))
        (Cache_pairs (library injector)))"

definition constructors_typed :: "Injector \<Rightarrow> bool" where
  "constructors_typed injector =
     list_all (\<lambda>(k, info). ConstructorType (heap injector ! info) =
                             reflect_TypeOf (ConstructorValue (heap injector ! info)))
       (Cache_pairs (library injector))"

definition same_registry :: "Injector \<Rightarrow> Injector \<Rightarrow> bool" where
  "same_registry a b =
     (Cache_lookup (library b) = Cache_lookup (library a) \<and>
      set (Cache_pairs (library b)) = set (Cache_pairs (library a)) \<and>
      (\<forall>i. static_info (heap b ! i) = static_info (heap a ! i)))"

text \<open>
  A key is a \<open>scoped_key\<close> when it is registered with the lifecycle \<open>Scope\<close>.  The
  keys that a key can \<open>reach\<close> are those it requires, directly or through other keys.
  An injector \<open>serves_scoped\<close> a key when it is resolvable with typed constructors, the
  key is scoped, and the key does not require itself, directly or through other keys
  (what \<open>Verify\<close> refuses as a dependency loop).  An injector is \<open>between_calls\<close>
  when it is in a verified state and every stack in its pool has length zero.
\<close>

definition scoped_key :: "Injector \<Rightarrow> rtype \<Rightarrow> bool" where
  "scoped_key injector k =
     (case Cache_lookup (library injector) k of
        None \<Rightarrow> False
      | Some info \<Rightarrow> Lifecycle (heap injector ! info) = Scope)"


definition serves_scoped :: "rtype \<Rightarrow> Injector \<Rightarrow> bool" where
  "serves_scoped k injector =
     (resolvable injector \<and> constructors_typed injector \<and> scoped_key injector k \<and>
      \<not> (requires injector)\<^sup>+\<^sup>+ k k)"

definition between_calls :: "Injector \<Rightarrow> bool" where
  "between_calls this =
     (assertValidState this = None \<and> list_all (\<lambda>stack. stack = []) (scopePool this))"

text \<open>
  An instance was \<open>built_during\<close> a run from one injector state to a later one when it
  is the first output of a call that the run appended to the trace.  The
  \<open>calls_during\<close> a run are the calls it appended; the \<open>arguments_for\<close> a key in a
  call are the arguments in the positions where the called function has a parameter of
  that type; \<open>handed_over\<close> lists them for all the calls of a run, in order.  A run
  hands over \<open>one_instance\<close> of a key when all of them are the same instance and that
  instance was built during the run.  \<open>held\<close> is the value that a scope stack holds
  for a key, in its first entry for the key.
\<close>

definition built_during :: "Injector \<Rightarrow> Injector \<Rightarrow> gvalue option \<Rightarrow> bool" where
  "built_during injector injector' v =
     (case v of
        None \<Rightarrow> False
      | Some (Out n i) \<Rightarrow> i = 0 \<and> length (trace injector) \<le> n \<and> n < length (trace injector'))"

definition calls_during :: "Injector \<Rightarrow> Injector \<Rightarrow> (govalue \<times> gvalue list) list" where
  "calls_during injector injector' = drop (length (trace injector)) (trace injector')"

definition arguments_for :: "rtype \<Rightarrow> govalue \<times> gvalue list \<Rightarrow> gvalue list" where
  "arguments_for k call =
     (case call of (f, args) \<Rightarrow> map snd (filter (\<lambda>(p, a). p = k) (zip (ins (dyn_type f)) args)))"

definition handed_over :: "rtype \<Rightarrow> Injector \<Rightarrow> Injector \<Rightarrow> gvalue list" where
  "handed_over k injector injector' = concat (map (arguments_for k) (calls_during injector injector'))"



text \<open>
  \<open>get_post\<close>: what a run of \<open>get\<close>, or of a stored closure, that returns leaves
  behind.  The registry is the same and still resolvable, the pool and the verified flag
  are untouched, the trace has grown, and the scope stack has grown by entries for keys
  among \<open>keys\<close> whose values were built during the run.  With \<open>builds\<close>, a value
  returned without an error was built during the run.
\<close>

definition get_post ::
  "bool \<Rightarrow> Injector \<Rightarrow> rtype set \<Rightarrow> ScopedInstance list \<Rightarrow> resolution \<Rightarrow> bool" where
  "get_post builds injector keys scoped r =
     (case r of
        Stops h \<Rightarrow> True
      | Returns ((v, e), injector', scoped') \<Rightarrow>
          same_registry injector injector' \<and> resolvable injector' \<and>
          scopePool injector' = scopePool injector \<and>
          verified injector' = verified injector \<and>
          (\<exists>t. trace injector' = trace injector @ t) \<and>
          (\<exists>ext. scoped' = scoped @ ext \<and>
                 (\<forall>s \<in> set ext. Type s \<in> keys \<and> built_during injector injector' (Value s))) \<and>
          (builds \<and> e = None \<longrightarrow> built_during injector injector' v))"

section \<open>Properties of the caches\<close>

lemma BubbleList_reorder_zero:
  "list_all (\<lambda>node. accesses node = 0) es \<Longrightarrow> i < length es \<Longrightarrow>
   snd (BubbleList_reorder i entry es) = es"
  by (auto simp: BubbleList_reorder_def Let_def list_all_length)

lemma BubbleList_scan_zero:
  "list_all (\<lambda>node. accesses node = 0) (pre @ rest) \<Longrightarrow>
   BubbleList_scan k reorder (length pre) rest (pre @ rest) =
     (map_of (map (\<lambda>node. (node_key node, node_value node)) rest) k, pre @ rest)"
proof (induction rest arbitrary: pre)
  case Nil
  then show ?case by simp
next
  case (Cons entry rest)
  have "BubbleList_scan k reorder (Suc (length pre)) rest ((pre @ [entry]) @ rest) =
     (map_of (map (\<lambda>node. (node_key node, node_value node)) rest) k, (pre @ [entry]) @ rest)"
    using Cons.IH [of "pre @ [entry]"] Cons.prems by simp
  moreover have "snd (BubbleList_reorder (length pre) entry (pre @ entry # rest)) = pre @ entry # rest"
    using Cons.prems by (intro BubbleList_reorder_zero) auto
  ultimately show ?case by simp
qed

lemma PriorityList_scan_lookup:
  "fst (PriorityList_scan k reorder passed remaining) =
     map_of (map (\<lambda>node. (pnode_key node, pnode_value node)) remaining) k"
  by (induction remaining arbitrary: passed) auto

lemma PriorityList_scan_nodes:
  "k \<notin> pnode_key ` set passed \<Longrightarrow>
   map_of (map (\<lambda>node. (pnode_key node, pnode_value node)) (snd (PriorityList_scan k reorder passed remaining))) =
   map_of (map (\<lambda>node. (pnode_key node, pnode_value node)) (passed @ remaining))"
proof (induction remaining arbitrary: passed)
  case Nil
  then show ?case by simp
next
  case (Cons current remaining)
  show ?case
  proof (cases "pnode_key current = k")
    case True
    have "map_of (map (\<lambda>node. (pnode_key node, pnode_value node)) passed) k = None"
      using Cons.prems by (simp add: map_of_eq_None_iff image_image)
    then show ?thesis using True
      by (auto simp: PriorityList_reorder_def fun_eq_iff map_add_def split: option.splits)
  next
    case False
    then show ?thesis using Cons.IH [of "passed @ [current]"] Cons.prems by auto
  qed
qed

lemma PriorityList_scan_NoReorder:
  "snd (PriorityList_scan k NoReorder passed remaining) = passed @ remaining"
  by (induction remaining arbitrary: passed) auto

lemma Cache_Find_idle:
  assumes "Cache_idle c"
  shows "\<exists>c'. Cache_Find k reorder c = Returns (Cache_lookup c k, c') \<and>
              Cache_lookup c' = Cache_lookup c \<and> Cache_idle c' \<and>
              (\<not> reorder \<longrightarrow> c' = c)"
proof (cases c)
  case (MapCache m)
  then show ?thesis by (simp add: Cache_lookup_def Map_Find_def Map_All_def)
next
  case (BubbleCache b)
  then have z: "list_all (\<lambda>node. accesses node = 0) ([] @ BL_entries b)" and f: "\<not> BL_mutex b"
    using assms by simp_all
  show ?thesis
    using BubbleList_scan_zero [OF z, of k reorder] f z BubbleCache
    by (cases b) (simp add: BubbleList_Find_def Cache_lookup_def BubbleList_All_def)
next
  case (PriorityCache p)
  then have f: "\<not> PL_mutex p" using assms by simp
  obtain found nodes where s: "PriorityList_scan k reorder [] (PL_head p) = (found, nodes)"
    by (cases "PriorityList_scan k reorder [] (PL_head p)")
  have 1: "found = map_of (map (\<lambda>node. (pnode_key node, pnode_value node)) (PL_head p)) k"
    using PriorityList_scan_lookup [of k reorder "[]" "PL_head p"] s by simp
  have 2: "map_of (map (\<lambda>node. (pnode_key node, pnode_value node)) nodes) =
           map_of (map (\<lambda>node. (pnode_key node, pnode_value node)) (PL_head p))"
    using PriorityList_scan_nodes [of k "[]" reorder "PL_head p"] s by simp
  have 3: "\<not> reorder \<Longrightarrow> nodes = PL_head p"
    using PriorityList_scan_NoReorder [of k "[]" "PL_head p"] s by simp
  show ?thesis using f s 1 2 3 PriorityCache
    by (cases p) (auto simp add: PriorityList_Find_def Cache_lookup_def fun_eq_iff)
qed

lemma Cache_idle_Add: "Cache_idle c \<Longrightarrow> Cache_idle (Cache_Add k v c)"
  by (cases c) (auto simp: BubbleList_Add_def PriorityList_Add_def)

lemma Cache_idle_add_all: "Cache_idle c \<Longrightarrow> Cache_idle (add_all kvs c)"
  by (induction kvs c rule: add_all.induct) (auto simp: Cache_idle_Add)

lemma find_all_idle:
  "Cache_idle c \<Longrightarrow> find_all qs c = Returns (map (\<lambda>(k, reorder). Cache_lookup c k) qs)"
proof (induction qs arbitrary: c)
  case Nil
  then show ?case by simp
next
  case (Cons q qs)
  obtain k reorder where q: "q = (k, reorder)" by (cases q)
  obtain c' where c': "Cache_Find k reorder c = Returns (Cache_lookup c k, c')"
      "Cache_lookup c' = Cache_lookup c" "Cache_idle c'"
    using Cache_Find_idle [OF Cons.prems, of k reorder] by blast
  show ?case using Cons.IH [OF c'(3)] c' q by simp
qed

lemma Cache_pairs_add_all_Map:
  "map_of (Cache_pairs (add_all kvs (MapCache m))) = map_of (Map_entries m) ++ map_of (rev kvs)"
proof (induction kvs arbitrary: m)
  case Nil
  then show ?case by (simp add: Map_All_def)
next
  case (Cons kv kvs)
  obtain k v where kv: "kv = (k, v)" by (cases kv)
  show ?case using Cons.IH [of "Map_Add k v m"] kv
    by (simp add: Map_Add_def AList.update_conv' map_add_upd_left fun_eq_iff map_add_def split: option.splits)
qed

lemma Cache_pairs_add_all_Priority:
  "Cache_pairs (add_all kvs (PriorityCache p)) =
     rev kvs @ map (\<lambda>node. (pnode_key node, pnode_value node)) (PL_head p)"
proof (induction kvs arbitrary: p)
  case Nil
  then show ?case by simp
next
  case (Cons kv kvs)
  obtain k v where kv: "kv = (k, v)" by (cases kv)
  show ?case using Cons.IH [of "PriorityList_Add k v p"] kv
    by (simp add: PriorityList_Add_def)
qed

lemma Cache_pairs_add_all_Bubble:
  "Cache_pairs (add_all kvs (BubbleCache b)) = BubbleList_All b @ kvs"
proof (induction kvs arbitrary: b)
  case Nil
  then show ?case by simp
next
  case (Cons kv kvs)
  obtain k v where kv: "kv = (k, v)" by (cases kv)
  show ?case using Cons.IH [of "BubbleList_Add k v b"] kv
    by (simp add: BubbleList_Add_def BubbleList_All_def)
qed

lemma map_of_rev_distinct: "distinct (map fst kvs) \<Longrightarrow> map_of (rev kvs) = map_of kvs"
proof (induction kvs)
  case Nil
  then show ?case by simp
next
  case (Cons kv kvs)
  then have "map_of kvs (fst kv) = None" by (simp add: map_of_eq_None_iff)
  then show ?case using Cons by (cases kv) (auto simp: fun_eq_iff map_add_def split: option.splits)
qed


text \<open>
  C5, as amended.  After any sequence of \<open>Add\<close> calls, any sequence of \<open>Find\<close> calls
  (each with its reorder flag) returns on a \<open>Map\<close> the value added last for each key
  and not found for a key never added; a \<open>PriorityList\<close> returns the same on every
  sequence.  A \<open>BubbleList\<close> returns the value added first for each key and not found
  for a key never added; so it returns the same as the other two when the keys added
  are pairwise distinct.
\<close>

theorem cache_strategies_agree:
  "find_all qs (add_all kvs (MapCache NewMap)) =
     Returns (map (\<lambda>(k, reorder). map_of (rev kvs) k) qs) \<and>
   find_all qs (add_all kvs (PriorityCache new_PriorityList)) =
     find_all qs (add_all kvs (MapCache NewMap)) \<and>
   find_all qs (add_all kvs (BubbleCache new_BubbleList)) =
     Returns (map (\<lambda>(k, reorder). map_of kvs k) qs) \<and>
   (distinct (map fst kvs) \<longrightarrow>
      find_all qs (add_all kvs (BubbleCache new_BubbleList)) =
        find_all qs (add_all kvs (MapCache NewMap)))"
proof -
  have im: "Cache_idle (add_all kvs (MapCache NewMap))"
    by (rule Cache_idle_add_all) simp
  have ip: "Cache_idle (add_all kvs (PriorityCache new_PriorityList))"
    by (rule Cache_idle_add_all) (simp add: new_PriorityList_def)
  have ib: "Cache_idle (add_all kvs (BubbleCache new_BubbleList))"
    by (rule Cache_idle_add_all) (simp add: new_BubbleList_def)
  have m: "find_all qs (add_all kvs (MapCache NewMap)) =
      Returns (map (\<lambda>(k, reorder). map_of (rev kvs) k) qs)"
    using find_all_idle [OF im] Cache_pairs_add_all_Map [of kvs NewMap]
    by (simp add: Cache_lookup_def NewMap_def)
  have p: "find_all qs (add_all kvs (PriorityCache new_PriorityList)) =
      Returns (map (\<lambda>(k, reorder). map_of (rev kvs) k) qs)"
    using find_all_idle [OF ip] Cache_pairs_add_all_Priority [of kvs new_PriorityList]
    by (simp add: Cache_lookup_def new_PriorityList_def)
  have f: "find_all qs (add_all kvs (BubbleCache new_BubbleList)) =
      Returns (map (\<lambda>(k, reorder). map_of kvs k) qs)"
    using find_all_idle [OF ib] Cache_pairs_add_all_Bubble [of kvs new_BubbleList]
    by (simp add: Cache_lookup_def new_BubbleList_def BubbleList_All_def)
  have b: "find_all qs (add_all kvs (BubbleCache new_BubbleList)) =
      Returns (map (\<lambda>(k, reorder). map_of (rev kvs) k) qs)" if "distinct (map fst kvs)"
    using f map_of_rev_distinct [OF that] by simp
  show ?thesis using m p f b by simp
qed

theorem cache_strategies_agree_witness:
  "distinct (map fst [(1::nat, 10::nat), (2, 20)]) \<and>
   find_all [(2, Reorder), (1, NoReorder), (3, Reorder), (2, Reorder)]
       (add_all [(1::nat, 10::nat), (2, 20)] (BubbleCache new_BubbleList)) =
     Returns [Some 20, Some 10, None, Some 20] \<and>
   find_all [(2, Reorder), (1, NoReorder), (3, Reorder), (2, Reorder)]
       (add_all [(1::nat, 10::nat), (2, 20)] (PriorityCache new_PriorityList)) =
     Returns [Some 20, Some 10, None, Some 20] \<and>
   find_all [(2, Reorder), (1, NoReorder), (3, Reorder), (2, Reorder)]
       (add_all [(1::nat, 10::nat), (2, 20)] (MapCache NewMap)) =
     Returns [Some 20, Some 10, None, Some 20] \<and>
   find_all [(1, Reorder), (2, NoReorder), (1, Reorder)]
       (add_all [(1::nat, 10::nat), (2, 20), (1, 30)] (BubbleCache new_BubbleList)) =
     Returns [Some 10, Some 20, Some 10] \<and>
   find_all [(1, Reorder), (2, NoReorder), (1, Reorder)]
       (add_all [(1::nat, 10::nat), (2, 20), (1, 30)] (PriorityCache new_PriorityList)) =
     Returns [Some 30, Some 20, Some 30]"
  using cache_strategies_agree
    [where qs = "[(2, Reorder), (1, NoReorder), (3, Reorder), (2, Reorder)]"
       and kvs = "[(1::nat, 10::nat), (2, 20)]"]
    cache_strategies_agree
    [where qs = "[(1, Reorder), (2, NoReorder), (1, Reorder)]"
       and kvs = "[(1::nat, 10::nat), (2, 20), (1, 30)]"]
  by simp

text \<open>
  C5 as stated fails when a key is added twice: \<open>Map\<close> and \<open>PriorityList\<close> return
  the value added last, \<open>BubbleList\<close> the value added first.
\<close>

theorem cache_strategies_disagree_on_repeated_key:
  "find_all [(1::nat, NoReorder)] (add_all [(1, 10::nat), (1, 20)] (BubbleCache new_BubbleList)) =
     Returns [Some 10] \<and>
   find_all [(1::nat, NoReorder)] (add_all [(1, 10::nat), (1, 20)] (MapCache NewMap)) =
     Returns [Some 20] \<and>
   find_all [(1::nat, NoReorder)] (add_all [(1, 10::nat), (1, 20)] (PriorityCache new_PriorityList)) =
     Returns [Some 20]"
  by (simp add: new_BubbleList_def NewMap_def new_PriorityList_def BubbleList_Add_def
      Map_Add_def PriorityList_Add_def BubbleList_Find_def Map_Find_def PriorityList_Find_def)

text \<open>
  C9 fails on the code.  After \<open>Add(1, 10)\<close> and \<open>Add(2, 20)\<close>, \<open>Find(2, Reorder)\<close>
  finds the entry, but the stored access counter of the entry is still 0 and the entry
  is still behind its left neighbour: the increment went to the loop variable.
\<close>

theorem BubbleList_Find_never_promotes:
  "BubbleList_Find (2::nat) Reorder (BubbleList_Add 2 (20::nat) (BubbleList_Add 1 10 new_BubbleList)) =
     Returns (Some 20, MkBubbleList False [bubbleNode 1 10 0, bubbleNode 2 20 0])"
  by (simp add: new_BubbleList_def BubbleList_Add_def BubbleList_Find_def BubbleList_reorder_def)

section \<open>Evaluating the model\<close>

lemmas model_defs =
  New_def RegisterSingleton_def RegisterScope_def RegisterTransient_def
  RegisterSingletonError_def RegisterScopeError_def RegisterTransientError_def
  register_def new_ObjectInfo_def reflect_TypeOf_def isStructLike_def NumOut_def
  AssignableTo_def last_segment_def new_injector_def
  NewMap_def new_BubbleList_def new_PriorityList_def
  Map_Add_def Map_Find_def Map_All_def
  BubbleList_Add_def BubbleList_Find_def BubbleList_All_def BubbleList_reorder_def
  PriorityList_Add_def PriorityList_Find_def PriorityList_reorder_def
  Cache_Prepare_def Verify_def verify_def parametersInfo_def
  assertValidState_def reflect_Call_def get_build_def Get_def GetByName_def
  callN_def Call_def Call1_def Call2_def Call3_def Call4_def CallN_def slice_index_def
  CheckIn_def CheckOut_def errors_Join_def List.map_filter_def quoted_def

lemmas fixture_defs =
  Car_def Driver_def Counter_def CounterWrapper_def test_impls_def
  NewRegularCar_def NewRegularDriver_def NewLoopDriver_def NewCallCounter_def
  NewCallCounterWrapper_def boom_def self_constructor_def Injector_type_def
  takes_Injector_def takes_Driver_def takes_Car_def forty_two_def NewSelfishCar_def
  NewSelfCar_def

lemmas sentinel_defs =
  ErrorAlreadyRegistered_def ErrorBadState_def ErrorDependencyLoop_def ErrorNoReturns_def
  ErrorNotAFunction_def ErrorNotAssignable_def ErrorNotRegistered_def
  ErrorNotStructOrInterface_def ErrorTooManyReturns_def ErrorVariadicArguments_def
  ErrorWrongNumberOfReturns_def

lemmas state_defs =
  verified_injector_def car_injector_def boom_injector_def boom_injector_after_Get_def
  loop_injector_def selfish_injector_def self_injector_def

section \<open>New\<close>

lemma generateCache_idle: "Cache_idle (generateCache strategy)"
  by (cases strategy) (simp_all add: NewMap_def new_BubbleList_def new_PriorityList_def)

lemma generateCache_lookup: "Cache_lookup (generateCache strategy) k = None"
  by (cases strategy)
     (simp_all add: Cache_lookup_def NewMap_def new_BubbleList_def new_PriorityList_def
        Map_All_def BubbleList_All_def)

lemma generateCache_Find:
  "Cache_Find k reorder (generateCache strategy) = Returns (None, generateCache strategy)"
  by (cases strategy)
     (simp_all add: NewMap_def new_BubbleList_def new_PriorityList_def Map_Find_def
        BubbleList_Find_def PriorityList_Find_def)

lemma New_strategy: "New impls (strategy # others) = Returns (new_injector strategy)"
  by (simp add: New_def RegisterSingleton_def register_def new_ObjectInfo_def
      reflect_TypeOf_def self_constructor_def Injector_type_def isStructLike_def
      NumOut_def AssignableTo_def generateCache_Find new_injector_def
      last_segment_def)

lemma New_default: "New impls [] = Returns (new_injector Map)"
  by (simp add: New_def RegisterSingleton_def register_def new_ObjectInfo_def
      reflect_TypeOf_def self_constructor_def Injector_type_def isStructLike_def
      NumOut_def AssignableTo_def generateCache_Find new_injector_def
      last_segment_def)

lemma Verify_new_injector_Map: "Verify 2 (new_injector Map) = Returns (None, verified_injector Map)"
  by (simp add: model_defs fixture_defs state_defs numeral_2_eq_2)

section \<open>Resolution on an injector that is not verified\<close>

lemma errors_Is_refl [simp]: "errors_Is e e"
  by (cases e) simp_all

lemma BadState_wraps:
  "errors_Is (Errorf ErrorBadState s) ErrorBadState"
  "errors_Is (Errorf2 ErrorBadState s ve) ErrorBadState"
  by simp_all

lemma assertValidState_unverified:
  "\<not> verified this \<Longrightarrow>
   assertValidState this =
     (case verificationError this of
        None \<Rightarrow> Some (Errorf ErrorBadState
          '': injector is not in a verified state, call Verify() on injector after registering all types'')
      | Some ve \<Rightarrow> Some (Errorf2 ErrorBadState
          '': injector is in a bad state with verification error: '' ve))"
  by (simp add: assertValidState_def split: option.splits)

lemma unverified_Get_BadState_aux:
  assumes "\<not> verified this"
  shows "Get fuel this key = Returns ((None, assertValidState this), this)"
    and "\<exists>e. assertValidState this = Some e \<and> errors_Is e ErrorBadState"
  using assms assertValidState_unverified [OF assms]
  by (auto simp: Get_def split: option.splits)

text \<open>
  C1, as amended.  On an injector whose \<open>verified\<close> flag is false (Verify never ran,
  its last run failed, or a registration followed it), \<open>Get\<close> by key returns the
  BadState error of \<open>assertValidState\<close> and leaves the injector as it was, so no
  constructor is called; \<open>GetByName\<close> does the same for a name that the trie resolves
  to a key.  The message tells the two cases apart: one text when no verification error
  is stored, another, wrapping the stored error, when one is.  For a name that the trie
  does not hold, \<open>GetByName\<close> returns NotRegistered and leaves the injector as it
  was: the trie is asked before the state is checked.
\<close>

theorem unverified_Get_BadState:
  assumes "\<not> verified this"
  shows "Get fuel this key = Returns ((None, assertValidState this), this) \<and>
         (trie_Find (nameToKeyTrie this) name = Some key \<longrightarrow>
            GetByName trie_Find fuel this name = Returns ((None, assertValidState this), this)) \<and>
         (\<exists>e. assertValidState this = Some e \<and> errors_Is e ErrorBadState) \<and>
         (verificationError this = None \<longrightarrow>
            assertValidState this = Some (Errorf ErrorBadState
              '': injector is not in a verified state, call Verify() on injector after registering all types'')) \<and>
         (\<forall>ve. verificationError this = Some ve \<longrightarrow>
            assertValidState this = Some (Errorf2 ErrorBadState
              '': injector is in a bad state with verification error: '' ve)) \<and>
         (trie_Find (nameToKeyTrie this) unknown = None \<longrightarrow>
            GetByName trie_Find fuel this unknown =
              Returns ((None, Some (Errorf ErrorNotRegistered
                         ('': no keys that match the string pattern '' @ [CHR 0x22] @ unknown
                            @ [CHR 0x22] @ '' have been registered''))),
                       this) \<and>
            errors_Is (Errorf ErrorNotRegistered
                         ('': no keys that match the string pattern '' @ [CHR 0x22] @ unknown
                            @ [CHR 0x22] @ '' have been registered'')) ErrorNotRegistered \<and>
            \<not> errors_Is (Errorf ErrorNotRegistered
                         ('': no keys that match the string pattern '' @ [CHR 0x22] @ unknown
                            @ [CHR 0x22] @ '' have been registered'')) ErrorBadState)"
  using assms assertValidState_unverified [OF assms]
  by (auto simp: Get_def GetByName_def sentinel_defs split: option.splits)

theorem unverified_Get_BadState_witness:
  "\<not> verified (new_injector Map) \<and>
   verificationError (new_injector Map) = None \<and>
   map_of (nameToKeyTrie (new_injector Map)) ''Injector'' = Some Injector_type \<and>
   map_of (nameToKeyTrie (new_injector Map)) ''Car'' = None \<and>
   Get 3 (new_injector Map) Injector_type =
     Returns ((None, Some (Errorf ErrorBadState
       '': injector is not in a verified state, call Verify() on injector after registering all types'')),
       new_injector Map) \<and>
   GetByName map_of 3 (new_injector Map) ''Injector'' =
     Returns ((None, Some (Errorf ErrorBadState
       '': injector is not in a verified state, call Verify() on injector after registering all types'')),
       new_injector Map) \<and>
   GetByName map_of 3 (new_injector Map) ''Car'' =
     Returns ((None, Some (Errorf ErrorNotRegistered
                ('': no keys that match the string pattern '' @ [CHR 0x22] @ ''Car''
                   @ [CHR 0x22] @ '' have been registered''))),
              new_injector Map) \<and>
   \<not> verified (loop_injector\<lparr>verificationError := Some (DependencyLoop_at [dyn_type NewRegularCar, dyn_type NewLoopDriver])\<rparr>) \<and>
   Get 3 (loop_injector\<lparr>verificationError := Some (DependencyLoop_at [dyn_type NewRegularCar, dyn_type NewLoopDriver])\<rparr>) Car =
     Returns ((None, Some (Errorf2 ErrorBadState
       '': injector is in a bad state with verification error: ''
         (DependencyLoop_at [dyn_type NewRegularCar, dyn_type NewLoopDriver]))),
       loop_injector\<lparr>verificationError := Some (DependencyLoop_at [dyn_type NewRegularCar, dyn_type NewLoopDriver])\<rparr>)"
  using unverified_Get_BadState [where this = "new_injector Map" and trie_Find = map_of
      and name = "''Injector''" and key = Injector_type and fuel = 3 and unknown = "''Car''"]
    unverified_Get_BadState [where this = "loop_injector\<lparr>verificationError := Some (DependencyLoop_at [dyn_type NewRegularCar, dyn_type NewLoopDriver])\<rparr>"
      and trie_Find = map_of and name = "''Car''" and key = Car and fuel = 3 and unknown = "''Bus''"]
  by (simp add: new_injector_def loop_injector_def car_injector_def fixture_defs)

text \<open>
  C1 as stated fails.  On the injector that \<open>New()\<close> returns, which was never
  verified, \<open>Call(func(di *Injector) {})\<close> returns a nil error: \<open>callN\<close> never calls
  \<open>assertValidState\<close>, the registered constructor of \<open>*Injector\<close> is called, and then
  the function.  And \<open>GetByName("Car")\<close>, a name the trie does not hold, returns
  NotRegistered, since the trie is asked before the state is checked (here with a
  trie that finds exactly the names added).
\<close>

theorem unverified_Call_runs:
  "\<not> verified (new_injector Map) \<and>
   returned (Call 2 (new_injector Map) (Some takes_Injector)) = Returns None \<and>
   map_option trace (left (Call 2 (new_injector Map) (Some takes_Injector))) =
     Some [(self_constructor, []), (takes_Injector, [Out 0 0])] \<and>
   returned (GetByName map_of 2 (new_injector Map) ''Car'') =
     Returns (None, Some (Errorf ErrorNotRegistered
       ('': no keys that match the string pattern '' @ [CHR 0x22] @ ''Car'' @ [CHR 0x22]
          @ '' have been registered'')))"
  by (simp add: model_defs fixture_defs numeral_2_eq_2)

section \<open>Registration\<close>

lemma register_verified:
  "register impls target key info = Returns (err, target') \<Longrightarrow> \<not> verified target'"
  by (auto simp: register_def Let_def split: if_splits option.splits outcome.splits prod.splits
      elim!: bindO.elims)

lemma register_failure_frame:
  "register impls target key info = Returns (Some e, target') \<Longrightarrow>
   heap target' = heap target \<and> nameToKeyTrie target' = nameToKeyTrie target \<and>
   trace target' = trace target \<and> scopePool target' = scopePool target \<and>
   verificationError target' = verificationError target"
  by (auto simp: register_def Let_def split: if_splits option.splits outcome.splits prod.splits
      elim!: bindO.elims)

lemma register_failure_library:
  assumes "register impls target key info = Returns (Some e, target')" "Cache_idle (library target)"
  shows "Cache_lookup (library target') = Cache_lookup (library target) \<and> Cache_idle (library target')"
proof -
  obtain c' where c': "Cache_Find key Reorder (library target) = Returns (Cache_lookup (library target) key, c')"
      "Cache_lookup c' = Cache_lookup (library target)" "Cache_idle c'"
    using Cache_Find_idle [OF assms(2), of key Reorder] by blast
  show ?thesis using assms c'
    by (auto simp: register_def Let_def split: if_splits option.splits)
qed

text \<open>
  C10, as amended.  Every call of \<open>register\<close>, whether it returns nil, returns an
  error or panics, leaves the \<open>verified\<close> flag false; a call that returns an error
  leaves the store of registered objects and the name index as they were, and the
  content of the library too.  On the injector it leaves, every \<open>Get\<close> by key, and
  every \<open>GetByName\<close> of a name that the trie resolves to a key, returns the BadState
  error and changes nothing, so this lasts until \<open>Verify\<close> runs; \<open>GetByName\<close> of a
  name that the trie does not hold returns NotRegistered.  (All six registration
  methods are calls of \<open>register\<close>.)
\<close>

theorem register_clears_verified:
  "\<not> verified (register_leaves impls target key info) \<and>
   (register impls target key info = Returns (err, target') \<longrightarrow>
      register_leaves impls target key info = target' \<and>
      (err \<noteq> None \<longrightarrow>
         heap target' = heap target \<and> nameToKeyTrie target' = nameToKeyTrie target) \<and>
      (err \<noteq> None \<and> Cache_idle (library target) \<longrightarrow>
         Cache_lookup (library target') = Cache_lookup (library target))) \<and>
   (register impls target key info = Stops h \<longrightarrow>
      register_leaves impls target key info = target\<lparr>verified := False\<rparr>) \<and>
   Get fuel (register_leaves impls target key info) k =
     Returns ((None, assertValidState (register_leaves impls target key info)),
              register_leaves impls target key info) \<and>
   (trie_Find (nameToKeyTrie (register_leaves impls target key info)) name = Some k \<longrightarrow>
      GetByName trie_Find fuel (register_leaves impls target key info) name =
        Returns ((None, assertValidState (register_leaves impls target key info)),
                 register_leaves impls target key info)) \<and>
   (trie_Find (nameToKeyTrie (register_leaves impls target key info)) unknown = None \<longrightarrow>
      GetByName trie_Find fuel (register_leaves impls target key info) unknown =
        Returns ((None, Some (Errorf ErrorNotRegistered
                   ('': no keys that match the string pattern '' @ [CHR 0x22] @ unknown
                      @ [CHR 0x22] @ '' have been registered''))),
                 register_leaves impls target key info)) \<and>
   (\<exists>e. assertValidState (register_leaves impls target key info) = Some e \<and>
        errors_Is e ErrorBadState)"
proof -
  let ?left = "register_leaves impls target key info"
  have v: "\<not> verified ?left"
  proof (cases "register impls target key info")
    case (Returns r)
    then show ?thesis using register_verified [of impls target key info "fst r" "snd r"]
      by (auto simp: register_leaves_def split: prod.splits)
  next
    case (Stops h')
    then show ?thesis by (simp add: register_leaves_def)
  qed
  have g: "Get fuel ?left k = Returns ((None, assertValidState ?left), ?left)"
       "\<exists>e. assertValidState ?left = Some e \<and> errors_Is e ErrorBadState"
    using unverified_Get_BadState_aux [OF v] by simp_all
  have r: "?left = target' \<and>
      (err \<noteq> None \<longrightarrow>
         heap target' = heap target \<and> nameToKeyTrie target' = nameToKeyTrie target) \<and>
      (err \<noteq> None \<and> Cache_idle (library target) \<longrightarrow>
         Cache_lookup (library target') = Cache_lookup (library target))"
    if run: "register impls target key info = Returns (err, target')"
    using run register_failure_frame [of impls target key info _ target']
      register_failure_library [of impls target key info _ target']
    by (cases err) (auto simp: register_leaves_def)
  have s: "?left = target\<lparr>verified := False\<rparr>" if "register impls target key info = Stops h"
    using that by (simp add: register_leaves_def)
  show ?thesis using v g r s by (simp add: GetByName_def)
qed

theorem register_clears_verified_witness:
  "register test_impls (verified_injector Map) (BasicT ''int'')
       (new_ObjectInfo (Some NewRegularCar) Singleton False) =
     Returns (Some (Errorf ErrorNotStructOrInterface ('': type '' @ quoted ''int'')), new_injector Map) \<and>
   register_leaves test_impls (verified_injector Map) (BasicT ''int'')
       (new_ObjectInfo (Some NewRegularCar) Singleton False) = new_injector Map \<and>
   register test_impls (verified_injector Map) Car (new_ObjectInfo None Singleton False) =
     Stops (Panic ''invalid memory address or nil pointer dereference'') \<and>
   register_leaves test_impls (verified_injector Map) Car (new_ObjectInfo None Singleton False) =
     new_injector Map \<and>
   verified (verified_injector Map) \<and> \<not> verified (new_injector Map) \<and>
   map_of (nameToKeyTrie (new_injector Map)) ''Injector'' = Some Injector_type \<and>
   map_of (nameToKeyTrie (new_injector Map)) ''Car'' = None \<and>
   Get 3 (new_injector Map) Injector_type =
     Returns ((None, Some (Errorf ErrorBadState
       '': injector is not in a verified state, call Verify() on injector after registering all types'')),
       new_injector Map) \<and>
   GetByName map_of 3 (new_injector Map) ''Injector'' =
     Returns ((None, Some (Errorf ErrorBadState
       '': injector is not in a verified state, call Verify() on injector after registering all types'')),
       new_injector Map) \<and>
   GetByName map_of 3 (new_injector Map) ''Car'' =
     Returns ((None, Some (Errorf ErrorNotRegistered
                ('': no keys that match the string pattern '' @ [CHR 0x22] @ ''Car''
                   @ [CHR 0x22] @ '' have been registered''))),
              new_injector Map)"
proof -
  have r: "register test_impls (verified_injector Map) (BasicT ''int'')
       (new_ObjectInfo (Some NewRegularCar) Singleton False) =
     Returns (Some (Errorf ErrorNotStructOrInterface ('': type '' @ quoted ''int'')), new_injector Map)"
    by (simp add: model_defs fixture_defs state_defs)
  have p: "register test_impls (verified_injector Map) Car (new_ObjectInfo None Singleton False) =
     Stops (Panic ''invalid memory address or nil pointer dereference'')"
    by (simp add: model_defs fixture_defs state_defs)
  have n: "verified_injector Map\<lparr>verified := False\<rparr> = new_injector Map"
    by (simp add: state_defs new_injector_def)
  have t: "map_of (nameToKeyTrie (new_injector Map)) ''Injector'' = Some Injector_type"
          "map_of (nameToKeyTrie (new_injector Map)) ''Car'' = None"
    by (simp_all add: new_injector_def)
  have a: "assertValidState (new_injector Map) = Some (Errorf ErrorBadState
       '': injector is not in a verified state, call Verify() on injector after registering all types'')"
    by (simp add: assertValidState_def new_injector_def)
  have 1: "register_leaves test_impls (verified_injector Map) (BasicT ''int'')
       (new_ObjectInfo (Some NewRegularCar) Singleton False) = new_injector Map"
    using register_clears_verified [of test_impls "verified_injector Map" "BasicT ''int''"
        "new_ObjectInfo (Some NewRegularCar) Singleton False"
        "Some (Errorf ErrorNotStructOrInterface ('': type '' @ quoted ''int''))" "new_injector Map"] r
    by simp
  have 2: "register_leaves test_impls (verified_injector Map) Car (new_ObjectInfo None Singleton False) =
     new_injector Map"
    using register_clears_verified [of test_impls "verified_injector Map" Car
        "new_ObjectInfo None Singleton False" _ _
        "Panic ''invalid memory address or nil pointer dereference''"] p n
    by simp
  have 3: "Get 3 (new_injector Map) Injector_type =
             Returns ((None, assertValidState (new_injector Map)), new_injector Map) \<and>
           GetByName map_of 3 (new_injector Map) ''Injector'' =
             Returns ((None, assertValidState (new_injector Map)), new_injector Map) \<and>
           GetByName map_of 3 (new_injector Map) ''Car'' =
             Returns ((None, Some (Errorf ErrorNotRegistered
                ('': no keys that match the string pattern '' @ [CHR 0x22] @ ''Car''
                   @ [CHR 0x22] @ '' have been registered''))),
              new_injector Map)"
    using register_clears_verified [of test_impls "verified_injector Map" "BasicT ''int''"
        "new_ObjectInfo (Some NewRegularCar) Singleton False" _ _ _ 3 Injector_type map_of
        "''Injector''" "''Car''"] 1 t
    by simp
  show ?thesis using r p 1 2 3 t a
    by (simp add: verified_injector_def new_injector_def)
qed

text \<open>
  C10 as stated fails.  \<open>New()\<close>, a successful \<open>Verify\<close>, then
  \<open>RegisterSingleton[int]\<close>, which fails with NotStructOrInterface and clears the flag;
  \<open>GetByName("Car")\<close>, a name the trie does not hold, then returns NotRegistered,
  which does not wrap BadState: the trie is asked before the state is checked (here
  with a trie that finds exactly the names added).
\<close>

theorem failed_registration_then_GetByName:
  "Verify 2 (new_injector Map) = Returns (None, verified_injector Map) \<and>
   RegisterSingleton test_impls (verified_injector Map) (BasicT ''int'') (Some NewRegularCar) =
     Returns (Some (Errorf ErrorNotStructOrInterface ('': type '' @ quoted ''int'')), new_injector Map) \<and>
   GetByName map_of 2 (new_injector Map) ''Car'' =
     Returns ((None, Some (Errorf ErrorNotRegistered
                ('': no keys that match the string pattern '' @ [CHR 0x22] @ ''Car''
                   @ [CHR 0x22] @ '' have been registered''))),
              new_injector Map) \<and>
   \<not> errors_Is (Errorf ErrorNotRegistered
                ('': no keys that match the string pattern '' @ [CHR 0x22] @ ''Car''
                   @ [CHR 0x22] @ '' have been registered'')) ErrorBadState"
  by (simp add: model_defs fixture_defs state_defs sentinel_defs numeral_2_eq_2)

text \<open>
  The Call family does not look at the flag.  After the same failed registration,
  \<open>Call(func(di *Injector) {})\<close> resolves \<open>*Injector\<close>, calls the function and
  returns a nil error, where \<open>Get\<close> returns BadState: \<open>callN\<close> never calls
  \<open>assertValidState\<close>.
\<close>

lemma failed_registration_then_Call:
  "Verify 2 (new_injector Map) = Returns (None, verified_injector Map) \<and>
   RegisterSingleton test_impls (verified_injector Map) (BasicT ''int'') (Some NewRegularCar) =
     Returns (Some (Errorf ErrorNotStructOrInterface ('': type '' @ quoted ''int'')), new_injector Map) \<and>
   returned (Call 2 (new_injector Map) (Some takes_Injector)) = Returns None"
  by (simp add: model_defs fixture_defs state_defs numeral_2_eq_2)

text \<open>
  C6, as amended.  For a key that is present in the library, no call of \<open>register\<close>
  succeeds, whatever the lifecycle and the constructor; and when the key and the
  constructor pass the shape checks (a function, two results for an error constructor
  and one otherwise, a first result assignable to the key, not variadic) the call fails
  with AlreadyRegistered and adds nothing.  The shape checks come first, in the order of
  the source: a constructor that fails one is refused with the error of the first check
  it fails (NotAFunction, WrongNumberOfReturns, TooManyReturns, NoReturns, NotAssignable,
  VariadicArguments), and the injector is left as it was but for the cleared
  \<open>verified\<close> flag.
\<close>

theorem register_present_key:
  assumes "Cache_idle (library target)"
      and "Cache_lookup (library target) key \<noteq> None"
  shows "(\<forall>target'. register impls target key info \<noteq> Returns (None, target')) \<and>
         ((isStructLike key \<or> validPointerKey key) \<and>
          ConstructorType info = Some ct \<and> Kind_of ct = Func \<and>
          NumOut ct = (if ConstructorReturnsError info then 2 else 1) \<and>
          AssignableTo impls (outs ct ! 0) key \<and> \<not> IsVariadic ct \<longrightarrow>
          (\<exists>target'. register impls target key info =
             Returns (Some (Errorf ErrorAlreadyRegistered
                        ('': constructor for type '' @ quoted (Name key))), target') \<and>
             heap target' = heap target \<and>
             Cache_lookup (library target') = Cache_lookup (library target))) \<and>
         ((isStructLike key \<or> validPointerKey key) \<and>
          ConstructorType info = Some ct \<and> Kind_of ct \<noteq> Func \<longrightarrow>
          register impls target key info =
            Returns (Some (Errorf ErrorNotAFunction
                       ('': constructor for type '' @ quoted (Name key))),
                     target\<lparr>verified := False\<rparr>)) \<and>
         ((isStructLike key \<or> validPointerKey key) \<and>
          ConstructorType info = Some ct \<and> Kind_of ct = Func \<and>
          ConstructorReturnsError info \<and> NumOut ct \<noteq> 2 \<longrightarrow>
          register impls target key info =
            Returns (Some (Errorf ErrorWrongNumberOfReturns
                       ('': constructor for type '' @ quoted (Name key)
                          @ '' should have exactly two return values'')),
                     target\<lparr>verified := False\<rparr>)) \<and>
         ((isStructLike key \<or> validPointerKey key) \<and>
          ConstructorType info = Some ct \<and> Kind_of ct = Func \<and>
          \<not> ConstructorReturnsError info \<and> NumOut ct > 1 \<longrightarrow>
          register impls target key info =
            Returns (Some (Errorf ErrorTooManyReturns
                       ('': constructor for type '' @ quoted (Name key))),
                     target\<lparr>verified := False\<rparr>)) \<and>
         ((isStructLike key \<or> validPointerKey key) \<and>
          ConstructorType info = Some ct \<and> Kind_of ct = Func \<and>
          \<not> ConstructorReturnsError info \<and> NumOut ct = 0 \<longrightarrow>
          register impls target key info =
            Returns (Some (Errorf ErrorNoReturns
                       ('': constructor for type '' @ quoted (Name key))),
                     target\<lparr>verified := False\<rparr>)) \<and>
         ((isStructLike key \<or> validPointerKey key) \<and>
          ConstructorType info = Some ct \<and> Kind_of ct = Func \<and>
          NumOut ct = (if ConstructorReturnsError info then 2 else 1) \<and>
          \<not> AssignableTo impls (outs ct ! 0) key \<longrightarrow>
          register impls target key info =
            Returns (Some (Errorf ErrorNotAssignable
                       ('': constructor'' @ [CHR 0x27] @ ''s return type ''
                          @ quoted (Name (outs ct ! 0))
                          @ '' is not assignable to type '' @ quoted (Name key))),
                     target\<lparr>verified := False\<rparr>)) \<and>
         ((isStructLike key \<or> validPointerKey key) \<and>
          ConstructorType info = Some ct \<and> Kind_of ct = Func \<and>
          NumOut ct = (if ConstructorReturnsError info then 2 else 1) \<and>
          AssignableTo impls (outs ct ! 0) key \<and> IsVariadic ct \<longrightarrow>
          register impls target key info =
            Returns (Some (Errorf ErrorVariadicArguments
                       ('': constructor for type '' @ quoted (Name key))),
                     target\<lparr>verified := False\<rparr>))"
proof -
  obtain a where a: "Cache_lookup (library target) key = Some a" using assms(2) by blast
  obtain c' where c': "Cache_Find key Reorder (library target) = Returns (Some a, c')"
      "Cache_lookup c' = Cache_lookup (library target)" "Cache_idle c'"
    using Cache_Find_idle [OF assms(1), of key Reorder] a by auto
  have 1: "\<forall>target'. register impls target key info \<noteq> Returns (None, target')"
    using c' by (auto simp: register_def Let_def split: if_splits option.splits)
  have 2: "\<exists>target'. register impls target key info =
             Returns (Some (Errorf ErrorAlreadyRegistered
                        ('': constructor for type '' @ quoted (Name key))), target') \<and>
             heap target' = heap target \<and>
             Cache_lookup (library target') = Cache_lookup (library target)"
    if "isStructLike key \<or> validPointerKey key" "ConstructorType info = Some ct" "Kind_of ct = Func"
       "NumOut ct = (if ConstructorReturnsError info then 2 else 1)"
       "AssignableTo impls (outs ct ! 0) key" "\<not> IsVariadic ct"
    using that c' by (auto simp: register_def Let_def)
  have 3: "register impls target key info =
            Returns (Some (Errorf ErrorNotAFunction
                       ('': constructor for type '' @ quoted (Name key))),
                     target\<lparr>verified := False\<rparr>)"
    if "isStructLike key \<or> validPointerKey key" "ConstructorType info = Some ct" "Kind_of ct \<noteq> Func"
    using that by (auto simp: register_def Let_def)
  have 4: "register impls target key info =
            Returns (Some (Errorf ErrorWrongNumberOfReturns
                       ('': constructor for type '' @ quoted (Name key)
                          @ '' should have exactly two return values'')),
                     target\<lparr>verified := False\<rparr>)"
    if "isStructLike key \<or> validPointerKey key" "ConstructorType info = Some ct" "Kind_of ct = Func"
       "ConstructorReturnsError info" "NumOut ct \<noteq> 2"
    using that by (auto simp: register_def Let_def)
  have 5: "register impls target key info =
            Returns (Some (Errorf ErrorTooManyReturns
                       ('': constructor for type '' @ quoted (Name key))),
                     target\<lparr>verified := False\<rparr>)"
    if "isStructLike key \<or> validPointerKey key" "ConstructorType info = Some ct" "Kind_of ct = Func"
       "\<not> ConstructorReturnsError info" "NumOut ct > 1"
    using that by (auto simp: register_def Let_def)
  have 6: "register impls target key info =
            Returns (Some (Errorf ErrorNoReturns
                       ('': constructor for type '' @ quoted (Name key))),
                     target\<lparr>verified := False\<rparr>)"
    if "isStructLike key \<or> validPointerKey key" "ConstructorType info = Some ct" "Kind_of ct = Func"
       "\<not> ConstructorReturnsError info" "NumOut ct = 0"
    using that by (auto simp: register_def Let_def)
  have 7: "register impls target key info =
            Returns (Some (Errorf ErrorNotAssignable
                       ('': constructor'' @ [CHR 0x27] @ ''s return type ''
                          @ quoted (Name (outs ct ! 0))
                          @ '' is not assignable to type '' @ quoted (Name key))),
                     target\<lparr>verified := False\<rparr>)"
    if "isStructLike key \<or> validPointerKey key" "ConstructorType info = Some ct" "Kind_of ct = Func"
       "NumOut ct = (if ConstructorReturnsError info then 2 else 1)"
       "\<not> AssignableTo impls (outs ct ! 0) key"
    using that by (auto simp: register_def Let_def)
  have 8: "register impls target key info =
            Returns (Some (Errorf ErrorVariadicArguments
                       ('': constructor for type '' @ quoted (Name key))),
                     target\<lparr>verified := False\<rparr>)"
    if "isStructLike key \<or> validPointerKey key" "ConstructorType info = Some ct" "Kind_of ct = Func"
       "NumOut ct = (if ConstructorReturnsError info then 2 else 1)"
       "AssignableTo impls (outs ct ! 0) key" "IsVariadic ct"
    using that by (auto simp: register_def Let_def)
  show ?thesis using 1 2 3 4 5 6 7 8 by blast
qed

theorem register_present_key_witness:
  "Cache_idle (library car_injector) \<and> Cache_lookup (library car_injector) Car = Some 1 \<and>
   returned (RegisterScope test_impls car_injector Car (Some NewRegularCar)) =
     Returns (Some (Errorf ErrorAlreadyRegistered ('': constructor for type '' @ quoted ''Car''))) \<and>
   returned (RegisterTransientError test_impls car_injector Car (Some boom)) =
     Returns (Some (Errorf ErrorAlreadyRegistered ('': constructor for type '' @ quoted ''Car''))) \<and>
   RegisterSingleton test_impls car_injector Car (Some forty_two) =
     Returns (Some (Errorf ErrorNotAFunction ('': constructor for type '' @ quoted ''Car'')),
              car_injector) \<and>
   RegisterSingletonError test_impls car_injector Car (Some NewRegularCar) =
     Returns (Some (Errorf ErrorWrongNumberOfReturns
                (('': constructor for type '' @ quoted ''Car'')
                   @ '' should have exactly two return values'')),
              car_injector) \<and>
   RegisterSingleton test_impls car_injector Car (Some boom) =
     Returns (Some (Errorf ErrorTooManyReturns ('': constructor for type '' @ quoted ''Car'')),
              car_injector) \<and>
   RegisterSingleton test_impls car_injector Car (Some takes_Car) =
     Returns (Some (Errorf ErrorNoReturns ('': constructor for type '' @ quoted ''Car'')),
              car_injector) \<and>
   RegisterSingleton test_impls car_injector Car (Some NewRegularDriver) =
     Returns (Some (Errorf ErrorNotAssignable
                ('': constructor'' @ [CHR 0x27] @ ''s return type '' @ quoted ''Driver''
                   @ '' is not assignable to type '' @ quoted ''Car'')),
              car_injector) \<and>
   RegisterSingleton test_impls car_injector Car (Some variadic_Car) =
     Returns (Some (Errorf ErrorVariadicArguments ('': constructor for type '' @ quoted ''Car'')),
              car_injector)"
proof -
  have i: "Cache_idle (library car_injector)"
    by (simp add: model_defs state_defs)
  have l: "Cache_lookup (library car_injector) Car \<noteq> None"
    by (simp add: model_defs fixture_defs state_defs Cache_lookup_def)
  have l1: "Cache_lookup (library car_injector) Car = Some 1"
    by (simp add: model_defs fixture_defs state_defs Cache_lookup_def)
  have k: "isStructLike Car" by (simp add: isStructLike_def Car_def)
  have v: "car_injector\<lparr>verified := False\<rparr> = car_injector"
    by (simp add: state_defs new_injector_def)
  note shape = new_ObjectInfo_def reflect_TypeOf_def NumOut_def AssignableTo_def fixture_defs
    variadic_Car_def
  have s: "returned (register test_impls car_injector Car (new_ObjectInfo (Some NewRegularCar) Scope False)) =
     Returns (Some (Errorf ErrorAlreadyRegistered ('': constructor for type '' @ quoted ''Car'')))"
    using k register_present_key [OF i l, of test_impls "new_ObjectInfo (Some NewRegularCar) Scope False"
        "dyn_type NewRegularCar"]
    by (auto simp: shape)
  have t: "returned (register test_impls car_injector Car (new_ObjectInfo (Some boom) Transient True)) =
     Returns (Some (Errorf ErrorAlreadyRegistered ('': constructor for type '' @ quoted ''Car'')))"
    using k register_present_key [OF i l, of test_impls "new_ObjectInfo (Some boom) Transient True"
        "dyn_type boom"]
    by (auto simp: shape)
  have e1: "register test_impls car_injector Car (new_ObjectInfo (Some forty_two) Singleton False) =
     Returns (Some (Errorf ErrorNotAFunction ('': constructor for type '' @ quoted ''Car'')),
              car_injector)"
    using k v register_present_key [OF i l, of test_impls "new_ObjectInfo (Some forty_two) Singleton False"
        "dyn_type forty_two"]
    by (simp add: shape)
  have e2: "register test_impls car_injector Car (new_ObjectInfo (Some NewRegularCar) Singleton True) =
     Returns (Some (Errorf ErrorWrongNumberOfReturns
                (('': constructor for type '' @ quoted ''Car'')
                   @ '' should have exactly two return values'')),
              car_injector)"
    using k v register_present_key [OF i l, of test_impls "new_ObjectInfo (Some NewRegularCar) Singleton True"
        "dyn_type NewRegularCar"]
    by (simp add: shape)
  have e3: "register test_impls car_injector Car (new_ObjectInfo (Some boom) Singleton False) =
     Returns (Some (Errorf ErrorTooManyReturns ('': constructor for type '' @ quoted ''Car'')),
              car_injector)"
    using k v register_present_key [OF i l, of test_impls "new_ObjectInfo (Some boom) Singleton False"
        "dyn_type boom"]
    by (simp add: shape)
  have e4: "register test_impls car_injector Car (new_ObjectInfo (Some takes_Car) Singleton False) =
     Returns (Some (Errorf ErrorNoReturns ('': constructor for type '' @ quoted ''Car'')),
              car_injector)"
    using k v register_present_key [OF i l, of test_impls "new_ObjectInfo (Some takes_Car) Singleton False"
        "dyn_type takes_Car"]
    by (simp add: shape)
  have e5: "register test_impls car_injector Car (new_ObjectInfo (Some NewRegularDriver) Singleton False) =
     Returns (Some (Errorf ErrorNotAssignable
                ('': constructor'' @ [CHR 0x27] @ ''s return type '' @ quoted ''Driver''
                   @ '' is not assignable to type '' @ quoted ''Car'')),
              car_injector)"
    using k v register_present_key [OF i l, of test_impls "new_ObjectInfo (Some NewRegularDriver) Singleton False"
        "dyn_type NewRegularDriver"]
    by (simp add: shape)
  have e6: "register test_impls car_injector Car (new_ObjectInfo (Some variadic_Car) Singleton False) =
     Returns (Some (Errorf ErrorVariadicArguments ('': constructor for type '' @ quoted ''Car'')),
              car_injector)"
    using k v register_present_key [OF i l, of test_impls "new_ObjectInfo (Some variadic_Car) Singleton False"
        "dyn_type variadic_Car"]
    by (simp add: shape)
  show ?thesis using i l1 s t e1 e2 e3 e4 e5 e6
    by (simp add: RegisterScope_def RegisterTransientError_def RegisterSingleton_def
          RegisterSingletonError_def)
qed

text \<open>
  C6 as stated fails.  After \<open>RegisterSingleton[Car](di, NewRegularCar)\<close>, registering
  \<open>Car\<close> again with the value \<open>42\<close> fails with NotAFunction, with
  \<open>NewRegularDriver\<close> with NotAssignable, with a variadic \<open>func(c ...Car) Car\<close> with
  VariadicArguments, and \<open>RegisterSingletonError[Car](di, NewRegularCar)\<close> fails with
  WrongNumberOfReturns; none of these errors wraps AlreadyRegistered.
\<close>

theorem second_registration_shape_error_first:
  "RegisterSingleton test_impls (new_injector Map) Car (Some NewRegularCar) = Returns (None, car_injector) \<and>
   returned (RegisterSingleton test_impls car_injector Car (Some forty_two)) =
     Returns (Some (Errorf ErrorNotAFunction ('': constructor for type '' @ quoted ''Car''))) \<and>
   \<not> errors_Is (Errorf ErrorNotAFunction ('': constructor for type '' @ quoted ''Car'')) ErrorAlreadyRegistered \<and>
   returned (RegisterSingleton test_impls car_injector Car (Some NewRegularDriver)) =
     Returns (Some (Errorf ErrorNotAssignable
       ('': constructor'' @ [CHR 0x27] @ ''s return type '' @ quoted ''Driver''
          @ '' is not assignable to type '' @ quoted ''Car''))) \<and>
   \<not> errors_Is (Errorf ErrorNotAssignable
       ('': constructor'' @ [CHR 0x27] @ ''s return type '' @ quoted ''Driver''
          @ '' is not assignable to type '' @ quoted ''Car'')) ErrorAlreadyRegistered \<and>
   returned (RegisterSingleton test_impls car_injector Car (Some variadic_Car)) =
     Returns (Some (Errorf ErrorVariadicArguments ('': constructor for type '' @ quoted ''Car''))) \<and>
   \<not> errors_Is (Errorf ErrorVariadicArguments ('': constructor for type '' @ quoted ''Car''))
       ErrorAlreadyRegistered \<and>
   returned (RegisterSingletonError test_impls car_injector Car (Some NewRegularCar)) =
     Returns (Some (Errorf ErrorWrongNumberOfReturns
       (('': constructor for type '' @ quoted ''Car'') @ '' should have exactly two return values''))) \<and>
   \<not> errors_Is (Errorf ErrorWrongNumberOfReturns
       (('': constructor for type '' @ quoted ''Car'') @ '' should have exactly two return values''))
       ErrorAlreadyRegistered"
  by (simp add: model_defs fixture_defs state_defs sentinel_defs variadic_Car_def)

section \<open>The Call family on a value that fails validation\<close>

text \<open>
  C7 fails on the code.  On any injector, \<open>Call(42)\<close> returns NotAFunction, but
  \<open>Call1(42)\<close> to \<open>Call4(42)\<close> panic: \<open>callN\<close> returns a nil slice with the error
  and the wrappers index it.  \<open>CallN(42)\<close> panics in \<open>NumOut\<close> before \<open>callN\<close> is
  called.  \<open>Call1\<close> panics in the same way on a function with no result
  (WrongNumberOfReturns) and on a variadic function (VariadicArguments).
\<close>

theorem Call_family_validation_errors:
  "returned (Call fuel this (Some forty_two)) =
     Returns (Some (Errorf ErrorNotAFunction ('': for value type with name '' @ quoted ''int''))) \<and>
   Call1 fuel this (Some forty_two) = Stops (Panic ''index out of range [0] with length 0'') \<and>
   Call2 fuel this (Some forty_two) = Stops (Panic ''index out of range [0] with length 0'') \<and>
   Call3 fuel this (Some forty_two) = Stops (Panic ''index out of range [0] with length 0'') \<and>
   Call4 fuel this (Some forty_two) = Stops (Panic ''index out of range [0] with length 0'') \<and>
   CallN fuel this (Some forty_two) = Stops (Panic ''reflect: NumOut of non-func type'') \<and>
   Call1 fuel this (Some takes_Car) = Stops (Panic ''index out of range [0] with length 0'') \<and>
   Call1 fuel this (Some (govalue (FuncT [Car] [Car] True) ''func(c ...Car) Car'' NilError)) =
     Stops (Panic ''index out of range [0] with length 0'')"
  by (simp add: model_defs fixture_defs)

section \<open>The Call family when a parameter does not resolve\<close>

lemma boom_setup:
  "RegisterTransientError test_impls (new_injector Map) Car (Some boom) =
     Returns (None, boom_injector\<lparr>verified := False\<rparr>) \<and>
   Verify 2 (boom_injector\<lparr>verified := False\<rparr>) = Returns (None, boom_injector)"
  by (simp add: model_defs fixture_defs state_defs numeral_2_eq_2)

text \<open>
  C2 fails on the code.  On the verified injector of \<open>New()\<close>,
  \<open>Call(func(d Driver) {})\<close> with \<open>Driver\<close> not registered panics: \<open>get\<close> returns a
  nil value with the NotRegistered error, and \<open>callN\<close> joins the error and then asserts
  the nil value to \<open>reflect.Value\<close>.  And where \<open>get\<close> returns a value with the error
  (a transient -Error constructor whose closure is already stored, here after one
  \<open>Get[Car]\<close>), \<open>callN\<close> calls the function: the trace ends with the call of
  \<open>func(c Car) {}\<close>, and only then the joined error is returned.
\<close>

theorem Call_with_failing_parameter:
  "Verify 2 (new_injector Map) = Returns (None, verified_injector Map) \<and>
   Call 3 (verified_injector Map) (Some takes_Driver) =
     Stops (Panic ''interface conversion: interface {} is nil, not reflect.Value'') \<and>
   Get 3 boom_injector Car = Returns ((None, Some (ConstructorError ''boom'')), boom_injector_after_Get) \<and>
   returned (Call 3 boom_injector_after_Get (Some takes_Car)) =
     Returns (Some (Join [ConstructorError ''boom''])) \<and>
   map_option trace (left (Call 3 boom_injector_after_Get (Some takes_Car))) =
     Some [(boom, []), (boom, []), (takes_Car, [Out 1 0])]"
  by (simp add: model_defs fixture_defs state_defs numeral_2_eq_2 numeral_3_eq_3)

section \<open>Verify\<close>

lemma Verify_new_injector_BubbleList:
  "Verify 2 (new_injector BubbleList) = Returns (None, verified_injector BubbleList)"
  by (simp add: model_defs fixture_defs state_defs numeral_2_eq_2)

text \<open>
  C3 fails on the code for the PriorityList strategy.  \<open>PriorityList.All\<close> holds the
  list's mutex while the loop body of \<open>Verify\<close> runs, and the body calls \<open>verify\<close>,
  whose \<open>Find\<close> locks the same mutex: on every injector whose library is a
  \<open>PriorityList\<close> with at least one entry, \<open>Verify\<close> never returns, whatever the
  recursion budget.  \<open>New\<close> registers the injector itself, so the library of an
  injector is never empty.  (On the same registry \<open>Verify\<close> returns nil with \<open>Map\<close> and
  with \<open>BubbleList\<close>: \<open>Verify_new_injector_Map\<close>, \<open>Verify_new_injector_BubbleList\<close>.)
\<close>

theorem PriorityList_Verify_deadlocks:
  assumes "library injector = PriorityCache p" "PL_head p \<noteq> []"
  shows "Verify fuel injector = Stops Deadlock"
proof -
  obtain node nodes where n: "PL_head p = node # nodes" using assms(2) by (cases "PL_head p") auto
  show ?thesis
  proof (cases "PL_mutex p")
    case True
    then show ?thesis using assms by (simp add: Verify_def Cache_Prepare_def)
  next
    case False
    then show ?thesis using assms n
      by (simp add: Verify_def Cache_Prepare_def verify_def PriorityList_Find_def)
  qed
qed

theorem PriorityList_Verify_deadlocks_witness:
  "New test_impls [PriorityList] = Returns (new_injector PriorityList) \<and>
   library (new_injector PriorityList) =
     PriorityCache (MkPriorityList False [priorityListNode Injector_type 0]) \<and>
   PL_head (MkPriorityList False [priorityListNode Injector_type (0::nat)]) \<noteq> [] \<and>
   Verify 5 (new_injector PriorityList) = Stops Deadlock"
proof -
  have l: "library (new_injector PriorityList) =
     PriorityCache (MkPriorityList False [priorityListNode Injector_type 0])"
    by (simp add: model_defs)
  have h: "PL_head (MkPriorityList False [priorityListNode Injector_type (0::nat)]) \<noteq> []" by simp
  show ?thesis using PriorityList_Verify_deadlocks [OF l h, of 5] l New_strategy [of test_impls PriorityList "[]"]
    by simp
qed

section \<open>Verify on a registry with a dependency loop\<close>

lemma Cache_Find_NoReorder_idle:
  "Cache_idle c \<Longrightarrow> Cache_Find k NoReorder c = Returns (Cache_lookup c k, c)"
  using Cache_Find_idle [of c k NoReorder] by auto

lemma library_update_same [simp]: "injector\<lparr>library := library injector\<rparr> = injector"
  by simp

lemma verifyStack_parameters_Cons_idle:
  assumes "Cache_idle (library injector)"
  shows "verifyStack_parameters rec (p # rest) injector stack =
     (case Cache_lookup (library injector) p of
        None \<Rightarrow> Returns (Some (Errorf ErrorNotRegistered
                   ('': constructor for type '' @ quoted (Name p))), injector, stack)
      | Some info \<Rightarrow>
          if ConstructorType (heap injector ! info) \<in> set stack
          then Returns (Some ErrorDependencyLoop, injector, stack)
          else bindO (rec injector (stack @ [ConstructorType (heap injector ! info)]))
                 (\<lambda>(err, injector', stack').
                    case err of
                      Some e \<Rightarrow> Returns (Some e, injector', stack')
                    | None \<Rightarrow> verifyStack_parameters rec rest injector' stack'))"
  using Cache_Find_NoReorder_idle [OF assms, of p]
  by (simp split: option.splits)

declare verifyStack_parameters.simps(2) [simp del]





lemma vs_post_parameters:
  assumes idle: "Cache_idle (library injector)"
      and rec: "\<And>stack. vs_post injector stack True (rec injector stack)"
  shows "vs_post injector stack False (verifyStack_parameters rec ps injector stack)"
proof (induction ps)
  case Nil
  then show ?case by (simp add: vs_post_def)
next
  case (Cons p ps)
  show ?case
  proof (cases "Cache_lookup (library injector) p")
    case None
    then show ?thesis by (simp add: verifyStack_parameters_Cons_idle [OF idle] vs_post_def)
  next
    case (Some info)
    let ?c = "ConstructorType (heap injector ! info)"
    show ?thesis
    proof (cases "?c \<in> set stack")
      case True
      then show ?thesis using Some
        by (simp add: verifyStack_parameters_Cons_idle [OF idle] vs_post_def)
    next
      case False
      show ?thesis
      proof (cases "rec injector (stack @ [?c])")
        case (Stops h)
        then show ?thesis using Some False
          by (simp add: verifyStack_parameters_Cons_idle [OF idle] vs_post_def)
      next
        case (Returns r)
        obtain err injector' stack' where r: "r = (err, injector', stack')" by (cases r)
        have post: "vs_post injector (stack @ [?c]) True (Returns (err, injector', stack'))"
          using rec [of "stack @ [?c]"] Returns r by simp
        show ?thesis
        proof (cases err)
          case None
          then have "injector' = injector" "stack' = stack" using post by (simp_all add: vs_post_def)
          then show ?thesis using Some False Returns r None Cons.IH
            by (simp add: verifyStack_parameters_Cons_idle [OF idle])
        next
          case (Some e)
          then have "injector' = injector" "\<exists>ext. stack' = stack @ ext"
            using post by (auto simp: vs_post_def)
          then show ?thesis using \<open>Cache_lookup (library injector) p = Some info\<close> False Returns r Some
            by (auto simp add: verifyStack_parameters_Cons_idle [OF idle] vs_post_def)
        qed
      qed
    qed
  qed
qed

lemma vs_post_verifyStack:
  assumes idle: "Cache_idle (library injector)"
  shows "vs_post injector stack True (verifyStack fuel injector stack)"
proof (induction fuel arbitrary: stack)
  case 0
  then show ?case by (simp add: vs_post_def)
next
  case (Suc fuel)
  show ?case
  proof (cases "stack = []")
    case True
    then show ?thesis by (simp add: vs_post_def)
  next
    case False
    show ?thesis
    proof (cases "parametersInfo (last stack)")
      case (Stops h)
      then show ?thesis using False by (simp add: vs_post_def)
    next
      case (Returns ps)
      have p: "vs_post injector stack False (verifyStack_parameters (verifyStack fuel) ps injector stack)"
        using vs_post_parameters [OF idle, of "verifyStack fuel"] Suc.IH by blast
      show ?thesis
      proof (cases "verifyStack_parameters (verifyStack fuel) ps injector stack")
        case (Stops h)
        then show ?thesis using False Returns by (simp add: vs_post_def)
      next
        case r: (Returns r)
        obtain err injector' stack' where "r = (err, injector', stack')" by (cases r)
        then show ?thesis using p r False Returns
          by (cases err) (auto simp: vs_post_def)
      qed
    qed
  qed
qed

lemma lookup_in_pairs:
  "Cache_lookup c k = Some a \<Longrightarrow> (k, a) \<in> set (Cache_pairs c)"
  by (simp add: Cache_lookup_def map_of_SomeD)

lemma lookup_signature_registered:
  "Cache_lookup (library injector) k = Some a \<Longrightarrow>
   ConstructorType (heap injector ! a) \<in> set (registered_signatures injector)"
  using lookup_in_pairs [of "library injector" k a]
  by (force simp: registered_signatures_def)

lemma fully_registered_signature:
  assumes "fully_registered injector" "c \<in> set (registered_signatures injector)"
  shows "\<exists>ft. c = Some ft \<and> Kind_of ft = Func \<and>
           (\<forall>p \<in> set (ins ft). Cache_lookup (library injector) p \<noteq> None)"
  using assms
  by (auto simp: fully_registered_def registered_signatures_def list_all_iff split: option.splits)

lemma distinct_subset_length:
  "distinct xs \<Longrightarrow> set xs \<subseteq> set ys \<Longrightarrow> length xs \<le> length ys"
  by (metis card_length card_mono distinct_card List.finite_set le_trans)



lemma vs_total_parameters:
  assumes idle: "Cache_idle (library injector)"
      and stack: "distinct stack" "set stack \<subseteq> set (registered_signatures injector)"
      and rec: "\<And>c. c \<notin> set stack \<Longrightarrow> c \<in> set (registered_signatures injector) \<Longrightarrow>
                  vs_total injector (stack @ [c]) True (rec injector (stack @ [c]))"
      and ps: "\<forall>p \<in> set ps. Cache_lookup (library injector) p \<noteq> None"
  shows "vs_total injector stack False (verifyStack_parameters rec ps injector stack)"
  using ps
proof (induction ps)
  case Nil
  then show ?case by (simp add: vs_total_def)
next
  case (Cons p ps)
  then obtain info where info: "Cache_lookup (library injector) p = Some info" by auto
  let ?c = "ConstructorType (heap injector ! info)"
  have reg: "?c \<in> set (registered_signatures injector)"
    using lookup_signature_registered [OF info] .
  show ?case
  proof (cases "?c \<in> set stack")
    case True
    then show ?thesis using info
      by (simp add: verifyStack_parameters_Cons_idle [OF idle] vs_total_def)
  next
    case False
    have "vs_total injector (stack @ [?c]) True (rec injector (stack @ [?c]))"
      using rec [OF False reg] .
    then consider
        (ok) "rec injector (stack @ [?c]) = Returns (None, injector, stack)"
      | (loop) ext where "rec injector (stack @ [?c]) =
                  Returns (Some ErrorDependencyLoop, injector, (stack @ [?c]) @ ext)"
               "set ext \<subseteq> set (registered_signatures injector)"
      by (auto simp: vs_total_def)
    then show ?thesis
    proof cases
      case ok
      then show ?thesis using info False Cons
        by (simp add: verifyStack_parameters_Cons_idle [OF idle])
    next
      case loop
      have "set (?c # ext) \<subseteq> set (registered_signatures injector)" using loop(2) reg by simp
      then show ?thesis using info False loop(1)
        unfolding vs_total_def
        by (simp add: verifyStack_parameters_Cons_idle [OF idle])
    qed
  qed
qed

lemma vs_total_verifyStack:
  assumes idle: "Cache_idle (library injector)"
      and full: "fully_registered injector"
  shows "stack \<noteq> [] \<Longrightarrow> distinct stack \<Longrightarrow> set stack \<subseteq> set (registered_signatures injector) \<Longrightarrow>
         length (registered_signatures injector) < fuel + length stack \<Longrightarrow>
         vs_total injector stack True (verifyStack fuel injector stack)"
proof (induction fuel arbitrary: stack)
  case 0
  then show ?case using distinct_subset_length [of stack "registered_signatures injector"] by simp
next
  case (Suc fuel)
  have "last stack \<in> set (registered_signatures injector)" using Suc.prems by auto
  then obtain ft where ft: "last stack = Some ft" "Kind_of ft = Func"
      "\<forall>p \<in> set (ins ft). Cache_lookup (library injector) p \<noteq> None"
    using fully_registered_signature [OF full] by blast
  have rec: "vs_total injector (stack @ [c]) True (verifyStack fuel injector (stack @ [c]))"
    if "c \<notin> set stack" "c \<in> set (registered_signatures injector)" for c
    using Suc.IH [of "stack @ [c]"] that Suc.prems by simp
  have "vs_total injector stack False (verifyStack_parameters (verifyStack fuel) (ins ft) injector stack)"
    using vs_total_parameters [OF idle Suc.prems(2,3) _ ft(3), of "verifyStack fuel"] rec by blast
  then show ?case using ft Suc.prems(1)
    by (auto simp: vs_total_def parametersInfo_def)
qed

lemma parameters_success_each:
  assumes idle: "Cache_idle (library injector)"
      and rec: "\<And>stack. vs_post injector stack True (rec injector stack)"
      and ok: "verifyStack_parameters rec ps injector stack = Returns (None, injector', stack')"
      and p: "p \<in> set ps"
  shows "\<exists>info. Cache_lookup (library injector) p = Some info \<and>
           ConstructorType (heap injector ! info) \<notin> set stack \<and>
           (\<exists>r. rec injector (stack @ [ConstructorType (heap injector ! info)]) = Returns (None, r))"
  using ok p
proof (induction ps)
  case Nil
  then show ?case by simp
next
  case (Cons q ps)
  from Cons.prems(1) obtain info where info: "Cache_lookup (library injector) q = Some info"
    by (cases "Cache_lookup (library injector) q")
       (auto simp: verifyStack_parameters_Cons_idle [OF idle])
  let ?c = "ConstructorType (heap injector ! info)"
  have notin: "?c \<notin> set stack"
    using Cons.prems(1) info
    by (auto simp: verifyStack_parameters_Cons_idle [OF idle] split: if_splits)
  obtain r where r: "rec injector (stack @ [?c]) = Returns r"
    using Cons.prems(1) info notin
    by (cases "rec injector (stack @ [?c])")
       (auto simp: verifyStack_parameters_Cons_idle [OF idle])
  obtain err i' s' where r3: "r = (err, i', s')" by (cases r)
  have err: "err = None"
    using Cons.prems(1) info notin r r3
    by (cases err) (auto simp: verifyStack_parameters_Cons_idle [OF idle])
  have post: "i' = injector" "s' = stack"
    using rec [of "stack @ [?c]"] r r3 err by (simp_all add: vs_post_def)
  have rest: "verifyStack_parameters rec ps injector stack = Returns (None, injector', stack')"
    using Cons.prems(1) info notin r r3 err post
    by (simp add: verifyStack_parameters_Cons_idle [OF idle])
  show ?case
  proof (cases "p = q")
    case True
    then show ?thesis using info notin r r3 err by auto
  next
    case False
    then show ?thesis using Cons.IH [OF rest] Cons.prems(2) by simp
  qed
qed

lemma verifyStack_success_step:
  assumes idle: "Cache_idle (library injector)"
      and ok: "verifyStack fuel injector stack = Returns (None, r)"
      and focus: "last stack = Some ft" "p \<in> set (ins ft)"
  shows "\<exists>info fuel' r'. Cache_lookup (library injector) p = Some info \<and>
           ConstructorType (heap injector ! info) \<notin> set stack \<and>
           verifyStack fuel' injector (stack @ [ConstructorType (heap injector ! info)]) =
             Returns (None, r')"
proof (cases fuel)
  case 0
  then show ?thesis using ok by simp
next
  case (Suc f)
  have ne: "stack \<noteq> []" using ok Suc by (auto split: if_splits)
  have func: "Kind_of ft = Func"
    using ok Suc ne focus by (auto simp: parametersInfo_def split: if_splits)
  obtain res where res: "verifyStack_parameters (verifyStack f) (ins ft) injector stack = Returns res"
    using ok Suc ne focus func
    by (cases "verifyStack_parameters (verifyStack f) (ins ft) injector stack")
       (auto simp: parametersInfo_def)
  obtain err i' s' where r3: "res = (err, i', s')" by (cases res)
  have "err = None" using ok Suc ne focus func res r3
    by (cases err) (auto simp: parametersInfo_def)
  then have "verifyStack_parameters (verifyStack f) (ins ft) injector stack = Returns (None, i', s')"
    using res r3 by simp
  from parameters_success_each [OF idle _ this focus(2)] vs_post_verifyStack [OF idle]
  show ?thesis by blast
qed

lemma verifyStack_success_chain:
  assumes idle: "Cache_idle (library injector)"
  shows "verifyStack fuel injector stack = Returns (None, r) \<Longrightarrow>
         last stack = signature_of injector k \<Longrightarrow>
         successively (requires injector) (k # ks) \<Longrightarrow>
         distinct (map (signature_of injector) ks) \<and>
         set (map (signature_of injector) ks) \<inter> set stack = {}"
proof (induction ks arbitrary: k stack fuel r)
  case Nil
  then show ?case by simp
next
  case (Cons k1 ks)
  from Cons.prems(3) have req: "requires injector k k1" and rest: "successively (requires injector) (k1 # ks)"
    by simp_all
  from req obtain ft where ft: "signature_of injector k = Some ft" "k1 \<in> set (ins ft)"
    by (auto simp: requires_def split: option.splits)
  from verifyStack_success_step [OF idle Cons.prems(1) _ ft(2)] ft(1) Cons.prems(2)
  obtain info fuel' r' where step: "Cache_lookup (library injector) k1 = Some info"
      "ConstructorType (heap injector ! info) \<notin> set stack"
      "verifyStack fuel' injector (stack @ [ConstructorType (heap injector ! info)]) = Returns (None, r')"
    by auto
  have sig: "signature_of injector k1 = ConstructorType (heap injector ! info)"
    using step(1) by (simp add: signature_of_def)
  have "distinct (map (signature_of injector) ks) \<and>
        set (map (signature_of injector) ks) \<inter> set (stack @ [signature_of injector k1]) = {}"
    using Cons.IH [OF _ _ rest, of fuel' "stack @ [signature_of injector k1]" r'] step(3) sig by simp
  then show ?case using step(2) sig by auto
qed

lemma flags_irrelevant [simp]:
  "fully_registered (injector\<lparr>verified := v, verificationError := e\<rparr>) = fully_registered injector"
  "registered_signatures (injector\<lparr>verified := v, verificationError := e\<rparr>) = registered_signatures injector"
  "signature_of (injector\<lparr>verified := v, verificationError := e\<rparr>) = signature_of injector"
  "requires (injector\<lparr>verified := v, verificationError := e\<rparr>) = requires injector"
proof -
  show 1: "fully_registered (injector\<lparr>verified := v, verificationError := e\<rparr>) = fully_registered injector"
    by (simp add: fully_registered_def cong: option.case_cong)
  show 2: "registered_signatures (injector\<lparr>verified := v, verificationError := e\<rparr>) = registered_signatures injector"
    by (simp add: registered_signatures_def)
  show 3: "signature_of (injector\<lparr>verified := v, verificationError := e\<rparr>) = signature_of injector"
    by (rule ext) (simp add: signature_of_def cong: option.case_cong)
  show "requires (injector\<lparr>verified := v, verificationError := e\<rparr>) = requires injector"
    by (rule ext, rule ext) (simp add: requires_def 3)
qed

lemma chain_names_Some: "chain_names (map Some path) = Returns (map Name path)"
  by (induction path) simp_all

lemma registered_stack_path:
  assumes "fully_registered injector" "set stack \<subseteq> set (registered_signatures injector)"
  shows "\<exists>path. stack = map Some path"
  using assms(2)
proof (induction stack)
  case Nil
  then show ?case by simp
next
  case (Cons c stack)
  then obtain path where "stack = map Some path" by auto
  moreover obtain ft where "c = Some ft"
    using fully_registered_signature [OF assms(1), of c] Cons.prems by auto
  ultimately have "c # stack = map Some (ft # path)" by simp
  then show ?case by (rule exI)
qed

lemma registered_signatures_length:
  "length (registered_signatures injector) = length (Cache_pairs (library injector))"
  by (simp add: registered_signatures_def)

lemma verify_total:
  assumes idle: "Cache_idle (library injector)"
      and full: "fully_registered injector"
      and k: "Cache_lookup (library injector) k = Some info"
      and fuel: "length (Cache_pairs (library injector)) \<le> fuel"
  shows "(verify fuel injector k = Returns (None, injector) \<and>
          verifyStack fuel injector [signature_of injector k] = Returns (None, injector, [])) \<or>
         (\<exists>path. verify fuel injector k = Returns (Some (DependencyLoop_at path), injector) \<and>
                 path \<noteq> [] \<and> signature_of injector k = Some (hd path))"
proof -
  let ?c = "ConstructorType (heap injector ! info)"
  have sig: "signature_of injector k = ?c" using k by (simp add: signature_of_def)
  have reg: "?c \<in> set (registered_signatures injector)" using lookup_signature_registered [OF k] .
  have "vs_total injector [?c] True (verifyStack fuel injector [?c])"
    using vs_total_verifyStack [OF idle full, of "[?c]" fuel] reg fuel
    by (simp add: registered_signatures_length)
  then consider
      (ok) "verifyStack fuel injector [?c] = Returns (None, injector, [])"
    | (loop) ext where "verifyStack fuel injector [?c] = Returns (Some ErrorDependencyLoop, injector, [?c] @ ext)"
         "set ext \<subseteq> set (registered_signatures injector)"
    by (auto simp: vs_total_def)
  then show ?thesis
  proof cases
    case ok
    then show ?thesis using k sig
      by (simp add: verify_def Cache_Find_NoReorder_idle [OF idle])
  next
    case loop
    have "set ([?c] @ ext) \<subseteq> set (registered_signatures injector)" using loop(2) reg by simp
    then obtain path where path: "[?c] @ ext = map Some path"
      using registered_stack_path [OF full] by blast
    then have ne: "path \<noteq> []" and hd: "?c = Some (hd path)" by (cases path; simp)+
    have "verify fuel injector k = Returns (Some (DependencyLoop_at path), injector)"
      using k loop(1) path chain_names_Some [of path]
      by (simp add: verify_def Cache_Find_NoReorder_idle [OF idle] DependencyLoop_at_def)
    then show ?thesis using ne hd sig by auto
  qed
qed

lemma Verify_keys_total:
  assumes idle: "Cache_idle (library injector)"
      and full: "fully_registered injector"
      and fuel: "length (Cache_pairs (library injector)) \<le> fuel"
  shows "\<forall>k \<in> set keys. Cache_lookup (library injector) k \<noteq> None \<Longrightarrow>
         (Verify_keys fuel keys injector = Returns (None, injector) \<and>
          (\<forall>k \<in> set keys. verifyStack fuel injector [signature_of injector k] = Returns (None, injector, []))) \<or>
         (\<exists>root \<in> set keys. \<exists>path.
            Verify_keys fuel keys injector =
              Returns (Some (DependencyLoop_at path),
                       injector\<lparr>verificationError := Some (DependencyLoop_at path)\<rparr>) \<and>
            path \<noteq> [] \<and> signature_of injector root = Some (hd path))"
proof (induction keys)
  case Nil
  then show ?case by simp
next
  case (Cons k keys)
  then obtain info where info: "Cache_lookup (library injector) k = Some info" by auto
  from verify_total [OF idle full info fuel]
  consider
      (ok) "verify fuel injector k = Returns (None, injector)"
           "verifyStack fuel injector [signature_of injector k] = Returns (None, injector, [])"
    | (loop) path where "verify fuel injector k = Returns (Some (DependencyLoop_at path), injector)"
           "path \<noteq> []" "signature_of injector k = Some (hd path)"
    by blast
  then show ?case
  proof cases
    case ok
    have "\<forall>k \<in> set keys. Cache_lookup (library injector) k \<noteq> None" using Cons.prems by simp
    from Cons.IH [OF this] show ?thesis using ok by auto
  next
    case loop
    then show ?thesis by auto
  qed
qed

lemma Cache_All_not_PriorityList:
  "strategy_of c \<noteq> PriorityList \<Longrightarrow>
   Cache_All_enter c = Returns (Cache_pairs c, c) \<and> Cache_All_exit c = c"
  by (cases c) simp_all

lemma pairs_keys_registered:
  "\<forall>k \<in> set (map fst (Cache_pairs c)). Cache_lookup c k \<noteq> None"
  by (auto simp: Cache_lookup_def map_of_eq_None_iff)

lemma DependencyLoop_at_Is: "errors_Is (DependencyLoop_at path) ErrorDependencyLoop"
  by (simp add: DependencyLoop_at_def)

lemma Verify_unfold:
  assumes "strategy_of (library injector) \<noteq> PriorityList"
  shows "Verify fuel injector =
     bindO (Verify_keys fuel (map fst (Cache_pairs (library injector)))
              (injector\<lparr>verified := False, verificationError := None\<rparr>))
       (\<lambda>(err, injector').
          case err of
            Some e \<Rightarrow> Returns (Some e, injector'\<lparr>library := Cache_All_exit (library injector')\<rparr>)
          | None \<Rightarrow> Returns (None, injector'\<lparr>library := Cache_All_exit (library injector'),
                                               verified := True\<rparr>))"
proof -
  have "injector\<lparr>verified := False, verificationError := None, library := library injector\<rparr> =
        injector\<lparr>verified := False, verificationError := None\<rparr>"
    by (cases injector) simp
  then show ?thesis using Cache_All_not_PriorityList [OF assms]
    by (simp add: Verify_def Cache_Prepare_def)
qed

lemmas graph_defs = signature_of_def requires_def fully_registered_def registered_signatures_def
  Cache_lookup_def DependencyLoop_at_def

lemma loop_setup:
  "RegisterSingleton test_impls car_injector Driver (Some NewLoopDriver) = Returns (None, loop_injector) \<and>
   RegisterSingleton test_impls (new_injector Map) Car (Some NewSelfishCar) = Returns (None, selfish_injector)"
  by (simp add: model_defs fixture_defs state_defs)

text \<open>
  C4, as amended.  Take an injector whose library is a \<open>Map\<close> or a \<open>BubbleList\<close>, with
  no call in progress, in which every parameter type of every registered constructor is
  registered.  If some chain of keys, each requiring the next, meets a constructor
  signature twice (a key that requires itself, directly or through other keys, is such a
  chain), then \<open>Verify\<close>, with a recursion budget of at least the number of registered
  keys, returns an error that wraps \<open>ErrorDependencyLoop\<close>; it stores that error and
  leaves the injector unverified.  A direct and a transitive self-reference are the
  same case.  (Nothing is said here about the text that the error carries.)
\<close>

theorem Verify_DependencyLoop:
  assumes strategy: "strategy_of (library injector) \<noteq> PriorityList"
      and idle: "Cache_idle (library injector)"
      and full: "fully_registered injector"
      and chain: "successively (requires injector) ks"
      and repeated: "\<not> distinct (map (signature_of injector) ks)"
      and fuel: "length (Cache_pairs (library injector)) \<le> fuel"
  shows "\<exists>text.
           errors_Is (Errorf ErrorDependencyLoop text) ErrorDependencyLoop \<and>
           Verify fuel injector =
             Returns (Some (Errorf ErrorDependencyLoop text),
                      injector\<lparr>verified := False,
                               verificationError := Some (Errorf ErrorDependencyLoop text)\<rparr>)"
proof -
  let ?inj = "injector\<lparr>verified := False, verificationError := None\<rparr>"
  let ?keys = "map fst (Cache_pairs (library injector))"
  obtain k0 k1 rest where ks: "ks = k0 # k1 # rest"
    using repeated by (cases ks; cases "tl ks") auto
  then have req: "requires injector k0 k1" using chain by simp
  then have k0: "Cache_lookup (library injector) k0 \<noteq> None"
    by (auto simp: requires_def signature_of_def split: option.splits)
  then have k0_key: "k0 \<in> set ?keys"
    by (auto simp: Cache_lookup_def map_of_eq_None_iff)
  have idle': "Cache_idle (library ?inj)" and full': "fully_registered ?inj"
    and fuel': "length (Cache_pairs (library ?inj)) \<le> fuel"
    using idle full fuel by simp_all
  have keys: "\<forall>k \<in> set ?keys. Cache_lookup (library ?inj) k \<noteq> None"
    using pairs_keys_registered [of "library injector"] by simp
  have not_all_ok: "\<not> (\<forall>k \<in> set ?keys. verifyStack fuel ?inj [signature_of ?inj k] = Returns (None, ?inj, []))"
  proof
    assume "\<forall>k \<in> set ?keys. verifyStack fuel ?inj [signature_of ?inj k] = Returns (None, ?inj, [])"
    then have ok: "verifyStack fuel ?inj [signature_of ?inj k0] = Returns (None, ?inj, [])"
      using k0_key by blast
    have "successively (requires ?inj) (k0 # k1 # rest)" using chain ks by simp
    from verifyStack_success_chain [OF idle' ok _ this]
    have "distinct (map (signature_of ?inj) (k1 # rest)) \<and>
          set (map (signature_of ?inj) (k1 # rest)) \<inter> set [signature_of ?inj k0] = {}"
      by simp
    then have "distinct (map (signature_of injector) ks)" using ks by auto
    then show False using repeated by simp
  qed
  from Verify_keys_total [OF idle' full' fuel' keys] not_all_ok
  obtain root path where r: "root \<in> set ?keys"
      "Verify_keys fuel ?keys ?inj =
         Returns (Some (DependencyLoop_at path), ?inj\<lparr>verificationError := Some (DependencyLoop_at path)\<rparr>)"
      "path \<noteq> []" "signature_of ?inj root = Some (hd path)"
    by blast
  have v: "Verify fuel injector =
             Returns (Some (DependencyLoop_at path),
                      injector\<lparr>verified := False,
                               verificationError := Some (DependencyLoop_at path)\<rparr>)"
    using r(2) Cache_All_not_PriorityList [OF strategy]
    by (simp add: Verify_unfold [OF strategy])
  have w: "errors_Is (Errorf ErrorDependencyLoop ([CHR 0x0A, CHR 0x09] @ arrow_joined (map Name path)))
               ErrorDependencyLoop \<and>
             Verify fuel injector =
               Returns (Some (Errorf ErrorDependencyLoop ([CHR 0x0A, CHR 0x09] @ arrow_joined (map Name path))),
                        injector\<lparr>verified := False,
                                 verificationError :=
                                   Some (Errorf ErrorDependencyLoop
                                           ([CHR 0x0A, CHR 0x09] @ arrow_joined (map Name path)))\<rparr>)"
    unfolding v DependencyLoop_at_def by simp
  show ?thesis by (rule exI, rule w)
qed

theorem Verify_DependencyLoop_witness:
  "strategy_of (library loop_injector) \<noteq> PriorityList \<and>
   Cache_idle (library loop_injector) \<and>
   fully_registered loop_injector \<and>
   successively (requires loop_injector) [Car, Driver, Car] \<and>
   \<not> distinct (map (signature_of loop_injector) [Car, Driver, Car]) \<and>
   length (Cache_pairs (library loop_injector)) \<le> 3 \<and>
   (\<exists>text.
      errors_Is (Errorf ErrorDependencyLoop text) ErrorDependencyLoop \<and>
      Verify 3 loop_injector =
        Returns (Some (Errorf ErrorDependencyLoop text),
                 loop_injector\<lparr>verified := False,
                                verificationError := Some (Errorf ErrorDependencyLoop text)\<rparr>)) \<and>
   strategy_of (library self_injector) \<noteq> PriorityList \<and>
   Cache_idle (library self_injector) \<and>
   fully_registered self_injector \<and>
   successively (requires self_injector) [Car, Car] \<and>
   \<not> distinct (map (signature_of self_injector) [Car, Car]) \<and>
   length (Cache_pairs (library self_injector)) \<le> 2 \<and>
   (\<exists>text.
      errors_Is (Errorf ErrorDependencyLoop text) ErrorDependencyLoop \<and>
      Verify 2 self_injector =
        Returns (Some (Errorf ErrorDependencyLoop text),
                 self_injector\<lparr>verified := False,
                                verificationError := Some (Errorf ErrorDependencyLoop text)\<rparr>))"
proof -
  have 1: "strategy_of (library loop_injector) \<noteq> PriorityList"
    by (simp add: model_defs state_defs)
  have 2: "Cache_idle (library loop_injector)"
    by (simp add: model_defs state_defs)
  have 3: "fully_registered loop_injector"
    by (simp add: model_defs state_defs fixture_defs graph_defs)
  have 4: "successively (requires loop_injector) [Car, Driver, Car]"
    by (simp add: model_defs state_defs fixture_defs graph_defs)
  have 5: "\<not> distinct (map (signature_of loop_injector) [Car, Driver, Car])"
    by (simp add: model_defs state_defs fixture_defs graph_defs)
  have 6: "length (Cache_pairs (library loop_injector)) \<le> 3"
    by (simp add: model_defs state_defs)
  have s1: "strategy_of (library self_injector) \<noteq> PriorityList"
    by (simp add: model_defs state_defs)
  have s2: "Cache_idle (library self_injector)"
    by (simp add: model_defs state_defs)
  have s3: "fully_registered self_injector"
    by (simp add: model_defs state_defs fixture_defs graph_defs)
  have s4: "successively (requires self_injector) [Car, Car]"
    by (simp add: model_defs state_defs fixture_defs graph_defs)
  have s5: "\<not> distinct (map (signature_of self_injector) [Car, Car])"
    by simp
  have s6: "length (Cache_pairs (library self_injector)) \<le> 2"
    by (simp add: model_defs state_defs)
  note loop = Verify_DependencyLoop [OF 1 2 3 4 5 6]
  note self = Verify_DependencyLoop [OF s1 s2 s3 s4 s5 s6]
  show ?thesis
    using 1 2 3 4 5 6 loop s1 s2 s3 s4 s5 s6 self
    by (intro conjI) assumption+
qed

text \<open>
  C4 as stated fails when a missing dependency is met before the loop.  After \<open>New()\<close>
  and \<open>RegisterSingleton[Car]\<close> with a constructor \<open>func(d Driver, c Car) Car\<close>, the
  key \<open>Car\<close> requires itself, but \<open>Verify\<close> returns NotRegistered for \<open>Driver\<close>, the
  parameter it visits first; the error does not wrap \<open>ErrorDependencyLoop\<close>.
\<close>

theorem Verify_NotRegistered_before_loop:
  "requires selfish_injector Car Car \<and>
   returned (Verify 3 selfish_injector) =
     Returns (Some (Errorf (Errorf ErrorNotRegistered ('': constructor for type '' @ quoted ''Driver''))
                      [CHR 0x0A, CHR 0x09])) \<and>
   \<not> errors_Is (Errorf (Errorf ErrorNotRegistered ('': constructor for type '' @ quoted ''Driver''))
                      [CHR 0x0A, CHR 0x09]) ErrorDependencyLoop"
  by (simp add: model_defs state_defs fixture_defs graph_defs sentinel_defs numeral_3_eq_3
      verifyStack_parameters.simps)

section \<open>Scoped instances within a call and across calls\<close>

subsection \<open>What a run of get leaves behind\<close>

text \<open>
  Every run of \<open>get\<close> that returns satisfies \<open>get_post\<close> (\<open>get_post_get\<close>): it
  keeps the registry, the pool and the verified flag, and only appends to the trace and
  to the scope stack.
\<close>

lemma same_registry_refl [simp]: "same_registry a a"
  by (simp add: same_registry_def)






lemma get_post_Stops [simp]: "get_post builds a keys s (Stops h)"
  by (simp add: get_post_def)








lemma PriorityList_scan_set:
  "set (snd (PriorityList_scan k reorder passed remaining)) = set (passed @ remaining)"
  by (induction remaining arbitrary: passed) (auto simp: PriorityList_reorder_def)

lemma Cache_Find_pairs_set:
  assumes "Cache_idle c" "Cache_Find k reorder c = Returns (found, c')"
  shows "set (Cache_pairs c') = set (Cache_pairs c)"
proof (cases c)
  case (MapCache m)
  then show ?thesis using assms by auto
next
  case (BubbleCache b)
  then have z: "list_all (\<lambda>node. accesses node = 0) ([] @ BL_entries b)" and f: "\<not> BL_mutex b"
    using assms by simp_all
  show ?thesis
    using BubbleList_scan_zero [OF z, of k reorder] f assms(2) BubbleCache
    by (auto simp: BubbleList_Find_def BubbleList_All_def)
next
  case (PriorityCache p)
  then show ?thesis
    using assms PriorityList_scan_set [of k reorder "[]" "PL_head p"]
    by (auto simp: PriorityList_Find_def split: prod.splits if_splits)
qed















subsection \<open>A scoped instance is recorded once and found again\<close>








subsection \<open>What a run hands over\<close>


lemma handed_over_same [simp]: "trace b = trace a \<Longrightarrow> handed_over k a b = []"
  by (simp add: handed_over_def calls_during_def)














subsection \<open>One call of Get or callN\<close>










subsection \<open>What registration and Verify establish\<close>

text \<open>
  The injector that \<open>New\<close> returns is resolvable, with typed constructors and an empty
  pool (\<open>new_injector_registry\<close>); the six registration methods keep that and keep
  scoped keys scoped (\<open>registration_keeps_registry\<close>), and \<open>RegisterScope\<close> and
  \<open>RegisterScopeError\<close> make their key a scoped key when they return nil
  (\<open>RegisterScope_scoped_key\<close>).  A \<open>Verify\<close> that returns nil has met no registered
  key that requires itself (\<open>Verify_success\<close>), so it leaves an injector that is between
  calls and serves every scoped key (\<open>Verify_serves_scoped\<close>).
\<close>

lemma tranclp_chain:
  "r\<^sup>+\<^sup>+ a b \<Longrightarrow> \<exists>ks. successively r (a # ks) \<and> ks \<noteq> [] \<and> last ks = b"
proof (induction rule: tranclp_induct)
  case (base y)
  have "successively r (a # [y]) \<and> [y] \<noteq> [] \<and> last [y] = y" using base by simp
  then show ?case by (rule exI)
next
  case (step y z)
  then obtain ks where ks: "successively r (a # ks)" "ks \<noteq> []" "last ks = y" by blast
  have "last (a # ks) = y" using ks(2,3) by simp
  then have "successively r ((a # ks) @ [z])"
    using ks(1) step.hyps(2) by (simp only: successively_append_iff) simp
  then have "successively r (a # (ks @ [z])) \<and> ks @ [z] \<noteq> [] \<and> last (ks @ [z]) = z" by simp
  then show ?case by (rule exI)
qed

lemma verifyStack_success_acyclic:
  assumes idle: "Cache_idle (library injector)"
      and ok: "verifyStack fuel injector [signature_of injector k] = Returns (None, r)"
  shows "\<not> (requires injector)\<^sup>+\<^sup>+ k k"
proof
  assume "(requires injector)\<^sup>+\<^sup>+ k k"
  then obtain ks where ks: "successively (requires injector) (k # ks)" "ks \<noteq> []" "last ks = k"
    using tranclp_chain by fastforce
  from verifyStack_success_chain [OF idle ok _ ks(1)]
  have "set (map (signature_of injector) ks) \<inter> set [signature_of injector k] = {}" by simp
  moreover have "k \<in> set ks" using ks(2,3) last_in_set by metis
  ultimately show False by auto
qed

lemma verify_success:
  assumes idle: "Cache_idle (library injector)"
      and ok: "verify fuel injector k = Returns (None, injector')"
  shows "injector' = injector \<and> (\<exists>r. verifyStack fuel injector [signature_of injector k] = Returns (None, r))"
proof -
  from ok obtain info where info: "Cache_lookup (library injector) k = Some info"
    by (cases "Cache_lookup (library injector) k")
       (auto simp: verify_def Cache_Find_NoReorder_idle [OF idle])
  let ?c = "ConstructorType (heap injector ! info)"
  from ok info obtain err inj1 stack where
    vs: "verifyStack fuel injector [?c] = Returns (err, inj1, stack)"
    by (cases "verifyStack fuel injector [?c]")
       (auto simp: verify_def Cache_Find_NoReorder_idle [OF idle])
  have err: "err = None"
    using ok info vs
    by (cases err; cases "chain_names stack")
       (auto simp: verify_def Cache_Find_NoReorder_idle [OF idle])
  have "inj1 = injector" using vs_post_verifyStack [OF idle, of "[?c]" fuel] vs err
    by (simp add: vs_post_def)
  moreover have "injector' = inj1" using ok info vs err
    by (simp add: verify_def Cache_Find_NoReorder_idle [OF idle])
  ultimately show ?thesis using vs err info by (simp add: signature_of_def)
qed

lemma Verify_keys_success:
  assumes idle: "Cache_idle (library injector)"
  shows "Verify_keys fuel keys injector = Returns (None, injector') \<Longrightarrow>
         injector' = injector \<and>
         (\<forall>k \<in> set keys. \<exists>r. verifyStack fuel injector [signature_of injector k] = Returns (None, r))"
proof (induction keys)
  case Nil
  then show ?case by simp
next
  case (Cons k keys)
  from Cons.prems obtain err inj1 where v: "verify fuel injector k = Returns (err, inj1)"
    by (cases "verify fuel injector k") auto
  have err: "err = None" using Cons.prems v by (cases err) auto
  from verify_success [OF idle] v err
  have 1: "inj1 = injector" "\<exists>r. verifyStack fuel injector [signature_of injector k] = Returns (None, r)"
    by auto
  have "Verify_keys fuel keys injector = Returns (None, injector')"
    using Cons.prems v err 1(1) by simp
  from Cons.IH [OF this] show ?case using 1(2) by simp
qed

lemma Verify_success:
  assumes idle: "Cache_idle (library injector)"
      and ok: "Verify fuel injector = Returns (None, this)"
      and k: "Cache_lookup (library injector) k = Some info"
  shows "this = injector\<lparr>verified := True, verificationError := None\<rparr> \<and>
         \<not> (requires injector)\<^sup>+\<^sup>+ k k"
proof (cases "strategy_of (library injector) = PriorityList")
  case True
  then obtain p where p: "library injector = PriorityCache p" by (cases "library injector") auto
  have m: "\<not> PL_mutex p" using idle p by simp
  have "PL_head p \<noteq> []" using k p by (auto simp: Cache_lookup_def)
  then obtain node nodes where "PL_head p = node # nodes" by (cases "PL_head p") auto
  then have "Verify fuel injector = Stops Deadlock"
    using p m by (simp add: Verify_def Cache_Prepare_def verify_def PriorityList_Find_def)
  then show ?thesis using ok by simp
next
  case False
  let ?start = "injector\<lparr>verified := False, verificationError := None\<rparr>"
  have idle0: "Cache_idle (library ?start)" using idle by simp
  have ex: "Cache_All_exit (library injector) = library injector"
    using Cache_All_not_PriorityList [OF False] by simp
  from ok obtain err inj1 where
    vk: "Verify_keys fuel (map fst (Cache_pairs (library injector))) ?start = Returns (err, inj1)"
    by (cases "Verify_keys fuel (map fst (Cache_pairs (library injector))) ?start")
       (auto simp: Verify_unfold [OF False])
  have err: "err = None" using ok vk by (cases err) (auto simp: Verify_unfold [OF False])
  from Verify_keys_success [OF idle0] vk err
  have 1: "inj1 = ?start"
    and 2: "\<forall>k \<in> set (map fst (Cache_pairs (library injector))).
              \<exists>r. verifyStack fuel ?start [signature_of ?start k] = Returns (None, r)"
    by auto
  have "Verify fuel injector = Returns (None, injector\<lparr>verified := True, verificationError := None\<rparr>)"
    using vk err 1 ex by (simp add: Verify_unfold [OF False])
  then have res: "this = injector\<lparr>verified := True, verificationError := None\<rparr>"
    using ok by simp
  have "k \<in> set (map fst (Cache_pairs (library injector)))"
    using lookup_in_pairs [OF k] by force
  then obtain r where vs: "verifyStack fuel ?start [signature_of ?start k] = Returns (None, r)"
    using 2 by blast
  from verifyStack_success_acyclic [OF idle0 vs]
  have "\<not> (requires injector)\<^sup>+\<^sup>+ k k" by simp
  then show ?thesis using res by simp
qed

lemma Verify_serves_scoped:
  assumes "resolvable injector" "constructors_typed injector" "scoped_key injector K"
      and "list_all (\<lambda>stack. stack = []) (scopePool injector)"
      and "Verify fuel injector = Returns (None, this)"
  shows "serves_scoped K this \<and> between_calls this"
proof -
  from assms(3) obtain info where info: "Cache_lookup (library injector) K = Some info"
    by (auto simp: scoped_key_def split: option.splits)
  have idle: "Cache_idle (library injector)" using assms(1) by (simp add: resolvable_def)
  from Verify_success [OF idle assms(5) info]
  have res: "this = injector\<lparr>verified := True, verificationError := None\<rparr>"
    and acyc: "\<not> (requires injector)\<^sup>+\<^sup>+ K K" by simp_all
  have "requires this = requires injector"
    unfolding res by (rule ext, rule ext) (simp add: requires_def signature_of_def)
  then show ?thesis
    using assms(1-4) acyc res
    by (simp add: serves_scoped_def between_calls_def resolvable_def constructors_typed_def
          scoped_key_def assertValidState_def cong: option.case_cong)
qed

lemma update_fresh: "k \<notin> fst ` set al \<Longrightarrow> AList.update k v al = al @ [(k, v)]"
  by (induction al) auto

lemma map_of_fresh: "k \<notin> fst ` set xs \<Longrightarrow> map_of (xs @ [(k, v)]) = (map_of xs)(k \<mapsto> v)"
  by (induction xs) (auto intro!: ext)

lemma Cache_pairs_Add_fresh:
  "k \<notin> fst ` set (Cache_pairs c) \<Longrightarrow>
   Cache_pairs (Cache_Add k v c) = Cache_pairs c @ [(k, v)] \<or>
   Cache_pairs (Cache_Add k v c) = (k, v) # Cache_pairs c"
proof (cases c)
  case (MapCache m)
  assume "k \<notin> fst ` set (Cache_pairs c)"
  then show ?thesis using MapCache by (simp add: Map_All_def Map_Add_def update_fresh)
next
  case (BubbleCache b)
  then show ?thesis by (simp add: BubbleList_All_def BubbleList_Add_def)
next
  case (PriorityCache p)
  then show ?thesis by (simp add: PriorityList_Add_def)
qed

lemma Cache_Add_fresh:
  assumes "Cache_lookup c k = None"
  shows "Cache_lookup (Cache_Add k v c) = (Cache_lookup c)(k \<mapsto> v) \<and>
         set (Cache_pairs (Cache_Add k v c)) = insert (k, v) (set (Cache_pairs c))"
proof -
  have fresh: "k \<notin> fst ` set (Cache_pairs c)"
    using assms by (simp add: Cache_lookup_def map_of_eq_None_iff)
  from Cache_pairs_Add_fresh [OF fresh, of v]
  have "map_of (Cache_pairs (Cache_Add k v c)) = (map_of (Cache_pairs c))(k \<mapsto> v) \<and>
        set (Cache_pairs (Cache_Add k v c)) = insert (k, v) (set (Cache_pairs c))"
  proof
    assume a: "Cache_pairs (Cache_Add k v c) = Cache_pairs c @ [(k, v)]"
    show ?thesis unfolding a using map_of_fresh [OF fresh, of v] by simp
  next
    assume a: "Cache_pairs (Cache_Add k v c) = (k, v) # Cache_pairs c"
    show ?thesis unfolding a by simp
  qed
  then have "\<And>x. Cache_lookup (Cache_Add k v c) x = ((Cache_lookup c)(k \<mapsto> v)) x"
    and s: "set (Cache_pairs (Cache_Add k v c)) = insert (k, v) (set (Cache_pairs c))"
    by (simp_all add: Cache_lookup_def)
  then have "Cache_lookup (Cache_Add k v c) = (Cache_lookup c)(k \<mapsto> v)" by (intro ext)
  then show ?thesis using s by simp
qed

lemma register_success:
  assumes "Cache_Find key Reorder (library target) = Returns (found, lib)"
      and "register impls target key info = Returns (None, target')"
  shows "found = None \<and>
         target' = target\<lparr>verified := False,
                          library := Cache_Add key (length (heap target)) lib,
                          nameToKeyTrie := (last_segment (String key), key) # nameToKeyTrie target,
                          heap := heap target @ [info]\<rparr>"
  using assms
  by (simp add: register_def Let_def split: if_splits option.splits)

lemma register_failure:
  assumes "Cache_Find key Reorder (library target) = Returns (found, lib)"
      and "register impls target key info = Returns (Some e, target')"
  shows "target' = target\<lparr>verified := False\<rparr> \<or> target' = target\<lparr>verified := False, library := lib\<rparr>"
  using assms
  by (simp add: register_def Let_def split: if_splits option.splits)

lemma register_outcome:
  assumes idle: "Cache_idle (library target)"
      and run: "register impls target key info = Returns (err, target')"
  shows "\<exists>lib. Cache_idle lib \<and> Cache_lookup lib = Cache_lookup (library target) \<and>
           set (Cache_pairs lib) = set (Cache_pairs (library target)) \<and>
           scopePool target' = scopePool target \<and>
           (case err of
              Some e \<Rightarrow> library target' = lib \<and> heap target' = heap target
            | None \<Rightarrow>
                Cache_lookup (library target) key = None \<and>
                library target' = Cache_Add key (length (heap target)) lib \<and>
                heap target' = heap target @ [info])"
proof -
  obtain lib where lib: "Cache_Find key Reorder (library target) = Returns (Cache_lookup (library target) key, lib)"
      "Cache_lookup lib = Cache_lookup (library target)" "Cache_idle lib"
    using Cache_Find_idle [OF idle, of key Reorder] by blast
  have s: "set (Cache_pairs lib) = set (Cache_pairs (library target))"
    using Cache_Find_pairs_set [OF idle lib(1)] .
  show ?thesis
  proof (cases err)
    case None
    then have "Cache_lookup (library target) key = None \<and>
               library target' = Cache_Add key (length (heap target)) lib \<and>
               heap target' = heap target @ [info] \<and> scopePool target' = scopePool target"
      using register_success [OF lib(1), of impls info target'] run by simp
    then have "Cache_idle lib \<and> Cache_lookup lib = Cache_lookup (library target) \<and>
           set (Cache_pairs lib) = set (Cache_pairs (library target)) \<and>
           scopePool target' = scopePool target \<and>
           (case err of
              Some e \<Rightarrow> library target' = lib \<and> heap target' = heap target
            | None \<Rightarrow>
                Cache_lookup (library target) key = None \<and>
                library target' = Cache_Add key (length (heap target)) lib \<and>
                heap target' = heap target @ [info])"
      using None lib(2,3) s by simp
    then show ?thesis by (rule exI)
  next
    case (Some e)
    then have "(library target' = lib \<or> library target' = library target) \<and>
               heap target' = heap target \<and> scopePool target' = scopePool target"
      using register_failure [OF lib(1), of impls info e target'] run by auto
    then consider "library target' = lib" "heap target' = heap target" "scopePool target' = scopePool target"
      | "library target' = library target" "heap target' = heap target" "scopePool target' = scopePool target"
      by blast
    then show ?thesis
    proof cases
      case 1
      then have "Cache_idle lib \<and> Cache_lookup lib = Cache_lookup (library target) \<and>
           set (Cache_pairs lib) = set (Cache_pairs (library target)) \<and>
           scopePool target' = scopePool target \<and>
           (case err of
              Some e \<Rightarrow> library target' = lib \<and> heap target' = heap target
            | None \<Rightarrow>
                Cache_lookup (library target) key = None \<and>
                library target' = Cache_Add key (length (heap target)) lib \<and>
                heap target' = heap target @ [info])"
        using Some lib(2,3) s by simp
      then show ?thesis by (rule exI)
    next
      case 2
      then have "Cache_idle (library target) \<and> Cache_lookup (library target) = Cache_lookup (library target) \<and>
           set (Cache_pairs (library target)) = set (Cache_pairs (library target)) \<and>
           scopePool target' = scopePool target \<and>
           (case err of
              Some e \<Rightarrow> library target' = library target \<and> heap target' = heap target
            | None \<Rightarrow>
                Cache_lookup (library target) key = None \<and>
                library target' = Cache_Add key (length (heap target)) (library target) \<and>
                heap target' = heap target @ [info])"
        using Some idle by simp
      then show ?thesis by (rule exI)
    qed
  qed
qed

lemma register_keeps_registry:
  assumes res: "resolvable target" and typed: "constructors_typed target"
      and pool: "list_all (\<lambda>stack. stack = []) (scopePool target)"
      and info: "ConstructorType info = reflect_TypeOf (ConstructorValue info)"
                "ConstructorFunction info = None"
      and run: "register impls target key info = Returns (err, target')"
  shows "resolvable target' \<and> constructors_typed target' \<and>
         list_all (\<lambda>stack. stack = []) (scopePool target') \<and>
         (scoped_key target k \<longrightarrow> scoped_key target' k) \<and>
         (err = None \<and> Lifecycle info = Scope \<longrightarrow> scoped_key target' key)"
proof -
  have idle: "Cache_idle (library target)" using res by (simp add: resolvable_def)
  have valid: "\<forall>(q, a) \<in> set (Cache_pairs (library target)). a < length (heap target)"
    using res by (auto simp: resolvable_def list_all_iff)
  from register_outcome [OF idle run] obtain lib where lib: "Cache_idle lib"
      "Cache_lookup lib = Cache_lookup (library target)"
      "set (Cache_pairs lib) = set (Cache_pairs (library target))"
      "scopePool target' = scopePool target"
    and out: "case err of
              Some e \<Rightarrow> library target' = lib \<and> heap target' = heap target
            | None \<Rightarrow>
                Cache_lookup (library target) key = None \<and>
                library target' = Cache_Add key (length (heap target)) lib \<and>
                heap target' = heap target @ [info]"
    by blast
  show ?thesis
  proof (cases err)
    case (Some e)
    then show ?thesis using out lib res typed pool
      by (auto simp: resolvable_def constructors_typed_def scoped_key_def list_all_iff
            split: option.splits)
  next
    case None
    then have fresh: "Cache_lookup lib key = None"
      and l: "library target' = Cache_Add key (length (heap target)) lib"
      and h: "heap target' = heap target @ [info]"
      using out lib(2) by simp_all
    note add = Cache_Add_fresh [OF fresh, of "length (heap target)"]
    have old: "heap target' ! a = heap target ! a" if "(q, a) \<in> set (Cache_pairs (library target))" for q a
      using valid that h by (auto simp: nth_append)
    have new: "heap target' ! length (heap target) = info" using h by simp
    have pairs: "a = length (heap target) \<or> (q, a) \<in> set (Cache_pairs (library target))"
      if "(q, a) \<in> set (Cache_pairs (library target'))" for q a
      using that l add lib(3) by auto
    have "a < length (heap target') \<and> memo_ok (heap target' ! a)"
      if "(q, a) \<in> set (Cache_pairs (library target'))" for q a
    proof (cases "a = length (heap target)")
      case True
      then show ?thesis using new h info(2) by (simp add: memo_ok_def)
    next
      case False
      then have m: "(q, a) \<in> set (Cache_pairs (library target))" using pairs [OF that] by simp
      then have "a < length (heap target) \<and> memo_ok (heap target ! a)"
        using res by (auto simp: resolvable_def list_all_iff)
      then show ?thesis using old [OF m] h by simp
    qed
    then have 1: "resolvable target'"
      using l Cache_idle_Add [OF lib(1)] by (auto simp: resolvable_def list_all_iff)
    have "ConstructorType (heap target' ! a) = reflect_TypeOf (ConstructorValue (heap target' ! a))"
      if "(q, a) \<in> set (Cache_pairs (library target'))" for q a
    proof (cases "a = length (heap target)")
      case True
      then show ?thesis using new info(1) by simp
    next
      case False
      then have m: "(q, a) \<in> set (Cache_pairs (library target))" using pairs [OF that] by simp
      then have "ConstructorType (heap target ! a) = reflect_TypeOf (ConstructorValue (heap target ! a))"
        using typed by (auto simp: constructors_typed_def list_all_iff)
      then show ?thesis using old [OF m] by simp
    qed
    then have 2: "constructors_typed target'"
      by (auto simp: constructors_typed_def list_all_iff)
    have 3: "scoped_key target k \<longrightarrow> scoped_key target' k"
    proof
      assume sk: "scoped_key target k"
      then obtain a where a: "Cache_lookup (library target) k = Some a"
          "Lifecycle (heap target ! a) = Scope"
        by (auto simp: scoped_key_def split: option.splits)
      have "k \<noteq> key" using a(1) fresh lib(2) by auto
      then have "Cache_lookup (library target') k = Some a" using l add a(1) lib(2) by simp
      moreover have "heap target' ! a = heap target ! a"
        using old lookup_in_pairs [OF a(1)] by blast
      ultimately show "scoped_key target' k" using a(2) by (simp add: scoped_key_def)
    qed
    have 4: "Lifecycle info = Scope \<longrightarrow> scoped_key target' key"
      using l add new by (simp add: scoped_key_def)
    show ?thesis using 1 2 3 4 pool lib(4) by simp
  qed
qed

lemma new_ObjectInfo_typed:
  "ConstructorType (new_ObjectInfo c lifecycle returnsError) =
     reflect_TypeOf (ConstructorValue (new_ObjectInfo c lifecycle returnsError)) \<and>
   ConstructorFunction (new_ObjectInfo c lifecycle returnsError) = None \<and>
   Lifecycle (new_ObjectInfo c lifecycle returnsError) = lifecycle"
  by (simp add: new_ObjectInfo_def)

lemma new_injector_registry:
  "resolvable (new_injector strategy) \<and> constructors_typed (new_injector strategy) \<and>
   list_all (\<lambda>stack. stack = []) (scopePool (new_injector strategy))"
  by (cases strategy)
     (simp_all add: resolvable_def constructors_typed_def new_injector_def memo_ok_def
        new_ObjectInfo_def reflect_TypeOf_def NewMap_def new_BubbleList_def new_PriorityList_def
        Map_Add_def Map_All_def BubbleList_Add_def BubbleList_All_def PriorityList_Add_def)

lemma registration_keeps_registry:
  assumes "resolvable this" and "constructors_typed this"
      and "list_all (\<lambda>stack. stack = []) (scopePool this)"
      and "RegisterTransient impls this key c = Returns (err, this') \<or>
           RegisterTransientError impls this key c = Returns (err, this') \<or>
           RegisterScope impls this key c = Returns (err, this') \<or>
           RegisterScopeError impls this key c = Returns (err, this') \<or>
           RegisterSingleton impls this key c = Returns (err, this') \<or>
           RegisterSingletonError impls this key c = Returns (err, this')"
  shows "resolvable this' \<and> constructors_typed this' \<and>
         list_all (\<lambda>stack. stack = []) (scopePool this') \<and>
         (scoped_key this k \<longrightarrow> scoped_key this' k)"
proof -
  from assms(4) obtain lifecycle returnsError where
    "register impls this key (new_ObjectInfo c lifecycle returnsError) = Returns (err, this')"
    unfolding RegisterTransient_def RegisterTransientError_def RegisterScope_def
      RegisterScopeError_def RegisterSingleton_def RegisterSingletonError_def
    by blast
  from register_keeps_registry [OF assms(1-3) _ _ this, of k] new_ObjectInfo_typed [of c lifecycle returnsError]
  show ?thesis by simp
qed

lemma RegisterScope_scoped_key:
  assumes "resolvable this" and "constructors_typed this"
      and "list_all (\<lambda>stack. stack = []) (scopePool this)"
      and "RegisterScope impls this key c = Returns (None, this') \<or>
           RegisterScopeError impls this key c = Returns (None, this')"
  shows "scoped_key this' key"
proof -
  from assms(4) obtain returnsError where
    "register impls this key (new_ObjectInfo c Scope returnsError) = Returns (None, this')"
    unfolding RegisterScope_def RegisterScopeError_def by blast
  from register_keeps_registry [OF assms(1-3) _ _ this, of key] new_ObjectInfo_typed [of c Scope returnsError]
  show ?thesis by simp
qed

subsection \<open>The injector of TestScope\<close>


lemmas counter_defs =
  counter_injector_def counter_injector_after_Get_def counter_injector_after_second_Get_def
  counter_injector_after_third_Get_def counter_injector_after_Call_def takes_Counters_def


lemma counter_setup:
  "bindO (RegisterScope test_impls (new_injector Map) Counter (Some NewCallCounter))
     (\<lambda>(err, di). bindO (RegisterTransient test_impls di CounterWrapper (Some NewCallCounterWrapper))
        (\<lambda>(err', di'). bindO (Verify 3 di') (\<lambda>(err'', di''). Returns ([err, err', err''], di'')))) =
   Returns ([None, None, None], counter_injector)"
  by (simp add: model_defs fixture_defs state_defs counter_defs numeral_3_eq_3
        verifyStack_parameters.simps)





end
